theory Spec2Isabelle
  imports Complex_Main
begin

section \<open>JavaScript values used by the upload client\<close>

text \<open>
  File sizes and byte offsets are JavaScript numbers holding integers. Below \<open>2^53\<close> their
  addition, comparison and \<open>Math.min\<close> are exact, so they are natural numbers here. The
  progress percentage \<open>Math.round((offset / file.size) * 100)\<close> is different: the quotient
  and the product are rounded to IEEE 754 binary64, so both roundings are modelled.
\<close>

function floor_log2 :: "int \<Rightarrow> nat" where
  "floor_log2 n = (if n < 2 then 0 else Suc (floor_log2 (n div 2)))"
  by pat_completeness auto
termination
  by (relation "measure nat") auto

declare floor_log2.simps [simp del]

definition ilog2 :: "rat \<Rightarrow> int" where
  \<comment> \<open>for \<open>x > 0\<close>: the exponent \<open>e\<close> with \<open>2^e \<le> x < 2^(e+1)\<close>\<close>
  "ilog2 x =
     (let (p, q) = quotient_of x;
          k = int (floor_log2 p) - int (floor_log2 q)
      in if 2 powi k \<le> x then k else k - 1)"

definition round_half_even :: "rat \<Rightarrow> int" where
  "round_half_even x =
     (let f = \<lfloor>x\<rfloor>; d = x - of_int f
      in if d < 1 / 2 then f
         else if 1 / 2 < d then f + 1
         else if even f then f else f + 1)"

definition binary64_pos :: "rat \<Rightarrow> rat" where
  \<comment> \<open>round to nearest, ties to even, 53 significant bits, subnormals below \<open>2^-1022\<close>;
      exact for every \<open>x > 0\<close> that does not round up to \<open>2^1024\<close>\<close>
  "binary64_pos x =
     (let u = 2 powi (max (ilog2 x) (- 1022) - 52)
      in of_int (round_half_even (x / u)) * u)"

definition binary64 :: "rat \<Rightarrow> rat" where
  "binary64 x = (if x = 0 then 0 else if x < 0 then - binary64_pos (- x) else binary64_pos x)"

definition Math_round :: "rat \<Rightarrow> int" where
  \<comment> \<open>the nearest integer, the one closer to \<open>+\<infinity>\<close> on a tie\<close>
  "Math_round x = \<lfloor>x + 1 / 2\<rfloor>"

definition percent :: "nat \<Rightarrow> nat \<Rightarrow> int" where
  \<comment> \<open>\<open>Math.min(Math.round((offset / file.size) * 100), 99)\<close>, evaluated where
      \<open>file.size > 0\<close>\<close>
  "percent offset fileSize =
     min (Math_round (binary64 (binary64 (of_nat offset / of_nat fileSize) * 100))) 99"

fun decimal :: "nat \<Rightarrow> string" where
  \<comment> \<open>the digits of a natural number, as a template literal prints it\<close>
  "decimal n =
     (if n < 10 then [''0123456789'' ! n]
      else decimal (n div 10) @ [''0123456789'' ! (n mod 10)])"

declare decimal.simps [simp del]

definition toString :: "int \<Rightarrow> string" where
  "toString i = (if 0 \<le> i then decimal (nat i) else CHR ''-'' # decimal (nat (- i)))"

definition startsWith :: "string \<Rightarrow> string \<Rightarrow> bool" where
  "startsWith s p = (take (length p) s = p)"

fun str_includes :: "string \<Rightarrow> string \<Rightarrow> bool" where
  "str_includes [] sub = (sub = [])"
| "str_includes (c # cs) sub = (startsWith (c # cs) sub \<or> str_includes cs sub)"

definition or_else :: "string \<Rightarrow> string \<Rightarrow> string" where
  \<comment> \<open>\<open>a || b\<close> on strings: the empty string is falsy\<close>
  "or_else a b = (if a = [] then b else a)"

definition falsy :: "string option \<Rightarrow> bool" where
  \<comment> \<open>\<open>!a\<close> for a string that may be \<open>null\<close> or \<open>undefined\<close> (\<open>None\<close>)\<close>
  "falsy a = (case a of None \<Rightarrow> True | Some s \<Rightarrow> s = [])"

definition or_default :: "string option \<Rightarrow> string \<Rightarrow> string" where
  \<comment> \<open>\<open>a || b\<close> where \<open>a\<close> may be \<open>undefined\<close> (\<open>None\<close>)\<close>
  "or_default a b = (case a of None \<Rightarrow> b | Some s \<Rightarrow> or_else s b)"

section \<open>Constants\<close>

definition GEMINI_PRO_MODEL :: string where
  "GEMINI_PRO_MODEL = ''gemini-2.0-flash-thinking-exp-01-21''"

definition GEMINI_FLASH_MODEL :: string where
  "GEMINI_FLASH_MODEL = ''gemini-2.0-flash-exp''"

definition UPLOAD_CHUNK_SIZE :: nat where
  "UPLOAD_CHUNK_SIZE = 8 * 1024 * 1024"

definition TRANSCRIPTION_PROMPT :: string where
  "TRANSCRIPTION_PROMPT =
''\<newline>You are a professional transcriber and mathematician. \<newline>Your task is to provide a verbatim, word-for-word transcription of the provided media.\<newline>\<newline>Rules:\<newline>1. Transcribe every word exactly as spoken.\<newline>2. If the speaker writes or mentions mathematical formulas, physics equations, or scientific notation, you MUST write them using valid LaTeX syntax enclosed in '$' for inline math or '$$' for block math.\<newline>3. Example: \"The energy is equals to m c squared\" should be transcribed as \"The energy is $E=mc^2$\".\<newline>4. Do not summarize. Do not leave out details.\<newline>5. Structure the output with appropriate paragraph breaks for readability.\<newline>''"

definition API_HOST :: string where
  "API_HOST = ''https://generativelanguage.googleapis.com''"

section \<open>The network and the callbacks, as data\<close>

text \<open>
  The service talks to the network and to its caller. A \<open>server\<close> fixes what the network
  answers: to the start request, to each chunk request, to the \<open>n\<close>-th state request and to
  the generation request. A run is the list of the effects in the order the code produces them
  (requests, \<open>onProgress\<close> calls, waits, the call of \<open>console.error\<close>) together with the value
  returned or the error thrown. A promise that rejects is \<open>Rejected\<close>; the \<open>await\<close> rethrows it.
\<close>

record js_file =
  file_size :: nat
  file_type :: string
  file_name :: string

record file_resource =
  \<comment> \<open>the \<open>file\<close> member of the final chunk's JSON body; a member that is missing or not a
      string behaves in every comparison below like a string different from the literals\<close>
  res_uri :: string
  res_name :: string
  res_state :: string

record response =
  status :: nat
  statusText :: string
  x_goog_upload_url :: "string option"  \<comment> \<open>\<open>headers.get('x-goog-upload-url')\<close>\<close>
  body_text :: "string option"  \<comment> \<open>\<open>text()\<close>; \<open>None\<close> when reading the body throws\<close>
  body_file :: "file_resource option"
    \<comment> \<open>\<open>json().file\<close>; \<open>None\<close> when the body is not JSON or has no such member\<close>

definition ok :: "response \<Rightarrow> bool" where
  "ok r = (200 \<le> status r \<and> status r \<le> 299)"

datatype 'a settled = Rejected | Resolved 'a

record start_request =
  start_url :: string
  start_headers :: "(string \<times> string) list"
  start_display_name :: string  \<comment> \<open>the body is \<open>{file: {display_name}}\<close>\<close>

record chunk_request =
  chunk_url :: string
  chunk_method :: string
  chunk_headers :: "(string \<times> string) list"
  slice_start :: nat  \<comment> \<open>the body is \<open>file.slice(slice_start, slice_end)\<close>\<close>
  slice_end :: nat

record generate_request =
  model :: string
  fileData_mimeType :: string
  fileData_fileUri :: string
  prompt_text :: string
  systemInstruction :: string
  thinkingBudget :: "nat option"  \<comment> \<open>\<open>config.thinkingConfig\<close>, \<open>None\<close> when not set\<close>

datatype generated =
    Generated "string option"  \<comment> \<open>\<open>response.text\<close>\<close>
  | GenerateThrew "string option"  \<comment> \<open>\<open>error.message\<close>\<close>

record server =
  start_reply :: "start_request \<Rightarrow> response settled"
  chunk_reply :: "chunk_request \<Rightarrow> response settled"
  state_reply :: "nat \<Rightarrow> string settled"
    \<comment> \<open>the \<open>state\<close> member of the answer to the \<open>n\<close>-th state request; \<open>Rejected\<close> when the
        request or the parsing of its body throws\<close>
  generate_reply :: "generate_request \<Rightarrow> generated"

datatype event =
    Start start_request
  | Chunk chunk_request
  | Progress int  \<comment> \<open>\<open>onProgress(percent)\<close>\<close>
  | Sleep nat  \<comment> \<open>\<open>setTimeout(resolve, ms)\<close>\<close>
  | GetState string
  | Generate generate_request
  | ConsoleError

datatype error =
    ApiKeyNotFound
  | ApiKeyNotConfigured
  | InitFailed string
  | NoUploadUrl
  | UploadFailed nat nat string string
  | ProcessingFailed
  | LoopFinished
  | TranscribeFailed string
  | Rejection
      \<comment> \<open>a rejected \<open>fetch\<close>, \<open>text()\<close> or \<open>json()\<close>, or a \<open>TypeError\<close>, propagated as it
          is; its message is the runtime's and is not modelled\<close>

fun message :: "error \<Rightarrow> string" where
  "message ApiKeyNotFound = ''API Key not found in environment variables.''"
| "message ApiKeyNotConfigured = ''API Key is not configured (process.env.API_KEY is missing)''"
| "message (InitFailed st) = ''Failed to initialize upload: '' @ st"
| "message NoUploadUrl = ''No upload URL received from Gemini API''"
| "message (UploadFailed offset code st errorText) =
     ''Upload failed at offset '' @ decimal offset @ '': '' @ decimal code @ '' ''
       @ st @ '' - '' @ errorText"
| "message ProcessingFailed = ''File processing failed on Gemini servers.''"
| "message LoopFinished = ''Upload loop finished without returning URI''"
| "message (TranscribeFailed m) = m"
| "message Rejection = []"

type_synonym 'a run = "(event list \<times> (error + 'a)) option"
  \<comment> \<open>the effects in order and the outcome; \<open>None\<close> for a run that never settles\<close>


section \<open>Readiness polling (the inner loop of both upload functions)\<close>

text \<open>
  \<open>poll_state\<close> is the loop \<open>while (state === 'PROCESSING')\<close>, the same text in both files;
  \<open>n\<close> counts the state requests sent so far.
\<close>

partial_function (option) poll_state ::
  "server \<Rightarrow> string \<Rightarrow> string \<Rightarrow> string \<Rightarrow> nat \<Rightarrow> event list \<Rightarrow> unit run" where
  "poll_state srv fileName apiKey state n tr =
     (if state = ''PROCESSING'' then
        let tr1 = tr @ [Sleep 2000, GetState (API_HOST @ ''/v1beta/'' @ fileName @ ''?key='' @ apiKey)]
        in case state_reply srv n of
             Rejected \<Rightarrow> Some (tr1, Inl Rejection)
           | Resolved state' \<Rightarrow>
               if state' = ''FAILED'' then Some (tr1, Inl ProcessingFailed)
               else poll_state srv fileName apiKey state' (Suc n) tr1
      else Some (tr, Inr ()))"

definition finish_upload :: "server \<Rightarrow> string \<Rightarrow> response \<Rightarrow> event list \<Rightarrow> string run" where
  \<comment> \<open>the block that reads the final response, polls and returns \<open>fileUri\<close>\<close>
  "finish_upload srv apiKey uploadRes tr =
     (case body_file uploadRes of
        None \<Rightarrow> Some (tr, Inl Rejection)
      | Some uploadData \<Rightarrow>
          (case poll_state srv (res_name uploadData) apiKey (res_state uploadData) 0 tr of
             None \<Rightarrow> None
           | Some (tr', Inl e) \<Rightarrow> Some (tr', Inl e)
           | Some (tr', Inr _) \<Rightarrow> Some (tr', Inr (res_uri uploadData))))"

section \<open>src/services/geminiService.ts: chunks sent with Content-Range\<close>

text \<open>
  The repository holds two versions of the service, this one and the one of
  src/unnamed/part_002 below. In the source the chunk size is the constant
  \<open>UPLOAD_CHUNK_SIZE\<close>; here it is the first argument \<open>chunkSize\<close>, so that the chunking can be
  stated for every size, and the runs below pass \<open>UPLOAD_CHUNK_SIZE\<close>. The loop is a partial
  function: with a chunk size of 0, or a server that reports \<open>PROCESSING\<close> for ever, it does not
  end, and the run is \<open>None\<close>.
\<close>

definition range_request :: "js_file \<Rightarrow> string \<Rightarrow> string \<Rightarrow> nat \<Rightarrow> nat \<Rightarrow> chunk_request" where
  "range_request f contentType resumableUrl offset chunkEnd =
     \<lparr>chunk_url = resumableUrl, chunk_method = ''PUT'',
      chunk_headers =
        [(''Content-Range'',
          ''bytes '' @ decimal offset @ ''-'' @ toString (int chunkEnd - 1) @ ''/''
            @ decimal (file_size f)),
         (''Content-Type'', contentType)],
      slice_start = offset, slice_end = chunkEnd\<rparr>"

partial_function (option) upload_loop ::
  "nat \<Rightarrow> server \<Rightarrow> js_file \<Rightarrow> string \<Rightarrow> string \<Rightarrow> string \<Rightarrow> nat \<Rightarrow> event list \<Rightarrow> string run"
  where
  "upload_loop chunkSize srv f apiKey contentType resumableUrl offset tr =
     (if offset < file_size f then
        let chunkEnd = min (offset + chunkSize) (file_size f);
            req = range_request f contentType resumableUrl offset chunkEnd;
            tr1 = tr @ [Chunk req]
        in case chunk_reply srv req of
             Rejected \<Rightarrow> Some (tr1, Inl Rejection)
           | Resolved uploadRes \<Rightarrow>
               if status uploadRes \<noteq> 308 \<and> \<not> ok uploadRes then
                 (case body_text uploadRes of
                    None \<Rightarrow> Some (tr1, Inl Rejection)
                  | Some errorText \<Rightarrow>
                      Some (tr1, Inl (UploadFailed offset (status uploadRes)
                                        (statusText uploadRes) errorText)))
               else
                 let tr2 = tr1 @ [Progress (percent chunkEnd (file_size f))]
                 in if ok uploadRes \<and> status uploadRes \<noteq> 308 then
                      finish_upload srv apiKey uploadRes tr2
                    else upload_loop chunkSize srv f apiKey contentType resumableUrl chunkEnd tr2
      else Some (tr, Inl LoopFinished))"

definition contentType_of :: "js_file \<Rightarrow> string" where
  \<comment> \<open>\<open>file.type || 'application/octet-stream'\<close>\<close>
  "contentType_of f = or_else (file_type f) ''application/octet-stream''"

definition start_request_of :: "js_file \<Rightarrow> string \<Rightarrow> string \<Rightarrow> start_request" where
  "start_request_of f apiKey contentType =
     \<lparr>start_url = API_HOST @ ''/upload/v1beta/files?key='' @ apiKey,
      start_headers =
        [(''X-Goog-Upload-Protocol'', ''resumable''),
         (''X-Goog-Upload-Command'', ''start''),
         (''X-Goog-Upload-Header-Content-Length'', decimal (file_size f)),
         (''X-Goog-Upload-Header-Content-Type'', contentType),
         (''Content-Type'', ''application/json'')],
      start_display_name = file_name f\<rparr>"

definition with_key :: "string \<Rightarrow> string \<Rightarrow> string" where
  \<comment> \<open>`Ensure API key is present in the resumable URL'\<close>
  "with_key resumableUrl apiKey =
     (if \<not> str_includes resumableUrl ''key='' then
        resumableUrl @ (if str_includes resumableUrl ''?'' then ''&'' else ''?'') @ ''key='' @ apiKey
      else resumableUrl)"

definition uploadToGemini :: "nat \<Rightarrow> server \<Rightarrow> js_file \<Rightarrow> string \<Rightarrow> string run" where
  "uploadToGemini chunkSize srv f apiKey =
     (let contentType = contentType_of f;
          init = start_request_of f apiKey contentType;
          tr = [Start init]
      in case start_reply srv init of
           Rejected \<Rightarrow> Some (tr, Inl Rejection)
         | Resolved initRes \<Rightarrow>
             if \<not> ok initRes then Some (tr, Inl (InitFailed (statusText initRes)))
             else if falsy (x_goog_upload_url initRes) then Some (tr, Inl NoUploadUrl)
             else
               let resumableUrl = with_key (the (x_goog_upload_url initRes)) apiKey
               in upload_loop chunkSize srv f apiKey contentType resumableUrl 0 tr)"

definition safeMimeType :: "string \<Rightarrow> js_file \<Rightarrow> string" where
  \<comment> \<open>\<open>mimeType || file.type || 'application/octet-stream'\<close>\<close>
  "safeMimeType mimeType f =
     or_else mimeType (or_else (file_type f) ''application/octet-stream'')"

definition or_true :: "bool option \<Rightarrow> bool" where
  \<comment> \<open>the parameter default \<open>isComplex: boolean = true\<close>; \<open>None\<close> is an argument left
      \<open>undefined\<close>\<close>
  "or_true b = (case b of None \<Rightarrow> True | Some v \<Rightarrow> v)"

definition generate_request_of :: "string \<Rightarrow> string \<Rightarrow> bool \<Rightarrow> generate_request" where
  "generate_request_of mime fileUri isComplex =
     \<lparr>model = (if isComplex then GEMINI_PRO_MODEL else GEMINI_FLASH_MODEL),
      fileData_mimeType = mime, fileData_fileUri = fileUri,
      prompt_text = TRANSCRIPTION_PROMPT,
      systemInstruction =
        ''You are an expert transcriber with deep knowledge of mathematical notation.'',
      thinkingBudget = (if isComplex then Some 32768 else None)\<rparr>"

definition generate :: "server \<Rightarrow> generate_request \<Rightarrow> event list \<Rightarrow> string run" where
  \<comment> \<open>the \<open>try\<close>/\<open>catch\<close> around \<open>ai.models.generateContent\<close>\<close>
  "generate srv req tr =
     (case generate_reply srv req of
        Generated t \<Rightarrow> Some (tr @ [Generate req], Inr (or_default t ''No transcription generated.''))
      | GenerateThrew m \<Rightarrow>
          Some (tr @ [Generate req, ConsoleError],
                Inl (TranscribeFailed (or_default m ''Failed to transcribe media.''))))"

definition transcribeMedia ::
  "nat \<Rightarrow> server \<Rightarrow> string option \<Rightarrow> js_file \<Rightarrow> string \<Rightarrow> bool option \<Rightarrow> string run" where
  \<comment> \<open>\<open>env_API_KEY\<close> is \<open>process.env.API_KEY\<close>\<close>
  "transcribeMedia chunkSize srv env_API_KEY f mimeType isComplex =
     (if falsy env_API_KEY then Some ([], Inl ApiKeyNotFound)
      else
        let apiKey = the env_API_KEY
        in case uploadToGemini chunkSize srv f apiKey of
             None \<Rightarrow> None
           | Some (tr, Inl e) \<Rightarrow> Some (tr, Inl e)
           | Some (tr, Inr fileUri) \<Rightarrow>
               generate srv
                 (generate_request_of (safeMimeType mimeType f) fileUri (or_true isComplex))
                 (tr @ [Progress 100]))"

section \<open>src/unnamed/part_002: chunks sent with X-Goog-Upload-Command\<close>

definition command_request ::
  "string \<Rightarrow> string \<Rightarrow> nat \<Rightarrow> nat \<Rightarrow> bool \<Rightarrow> chunk_request" where
  "command_request contentType resumableUrl offset chunkEnd isLastChunk =
     \<lparr>chunk_url = resumableUrl, chunk_method = ''POST'',
      chunk_headers =
        [(''Content-Type'', contentType),
         (''X-Goog-Upload-Offset'', decimal offset),
         (''X-Goog-Upload-Command'', if isLastChunk then ''upload, finalize'' else ''upload'')],
      slice_start = offset, slice_end = chunkEnd\<rparr>"

partial_function (option) upload_loop_part_002 ::
  "nat \<Rightarrow> server \<Rightarrow> js_file \<Rightarrow> string \<Rightarrow> string \<Rightarrow> string \<Rightarrow> nat \<Rightarrow> event list \<Rightarrow> string run"
  where
  "upload_loop_part_002 chunkSize srv f apiKey contentType resumableUrl offset tr =
     (if offset < file_size f then
        let chunkEnd = min (offset + chunkSize) (file_size f);
            isLastChunk = (chunkEnd = file_size f);
            req = command_request contentType resumableUrl offset chunkEnd isLastChunk;
            tr1 = tr @ [Chunk req]
        in case chunk_reply srv req of
             Rejected \<Rightarrow> Some (tr1, Inl Rejection)
           | Resolved uploadRes \<Rightarrow>
               if \<not> ok uploadRes then
                 (case body_text uploadRes of
                    None \<Rightarrow> Some (tr1, Inl Rejection)
                  | Some errorText \<Rightarrow>
                      Some (tr1, Inl (UploadFailed offset (status uploadRes)
                                        (statusText uploadRes) errorText)))
               else
                 let tr2 = tr1 @ [Progress (percent chunkEnd (file_size f))]
                 in if isLastChunk then finish_upload srv apiKey uploadRes tr2
                    else upload_loop_part_002 chunkSize srv f apiKey contentType resumableUrl
                           chunkEnd tr2
      else Some (tr, Inl LoopFinished))"

definition absolute_url :: "string \<Rightarrow> string" where
  \<comment> \<open>`Fix: If the URL is relative, prepend the host. This fixes the 404 error.'\<close>
  "absolute_url resumableUrl =
     (if startsWith resumableUrl ''/'' then API_HOST @ resumableUrl else resumableUrl)"

definition uploadToGemini_part_002 :: "nat \<Rightarrow> server \<Rightarrow> js_file \<Rightarrow> string \<Rightarrow> string run" where
  "uploadToGemini_part_002 chunkSize srv f apiKey =
     (let contentType = contentType_of f;
          init = start_request_of f apiKey contentType;
          tr = [Start init]
      in case start_reply srv init of
           Rejected \<Rightarrow> Some (tr, Inl Rejection)
         | Resolved initRes \<Rightarrow>
             if \<not> ok initRes then Some (tr, Inl (InitFailed (statusText initRes)))
             else if falsy (x_goog_upload_url initRes) then Some (tr, Inl NoUploadUrl)
             else
               let resumableUrl = with_key (absolute_url (the (x_goog_upload_url initRes))) apiKey
               in upload_loop_part_002 chunkSize srv f apiKey contentType resumableUrl 0 tr)"

definition transcribeMedia_part_002 ::
  "nat \<Rightarrow> server \<Rightarrow> string option \<Rightarrow> js_file \<Rightarrow> string \<Rightarrow> bool option \<Rightarrow> string run" where
  "transcribeMedia_part_002 chunkSize srv env_API_KEY f mimeType isComplex =
     (if falsy env_API_KEY then Some ([], Inl ApiKeyNotConfigured)
      else
        let apiKey = the env_API_KEY
        in case uploadToGemini_part_002 chunkSize srv f apiKey of
             None \<Rightarrow> None
           | Some (tr, Inl e) \<Rightarrow> Some (tr, Inl e)
           | Some (tr, Inr fileUri) \<Rightarrow>
               generate srv
                 (generate_request_of (safeMimeType mimeType f) fileUri (or_true isComplex))
                 (tr @ [Progress 100]))"

section \<open>Runs observed before they settle\<close>









section \<open>Observations on a run\<close>

definition chunk_requests :: "event list \<Rightarrow> chunk_request list" where
  "chunk_requests tr = concat (map (\<lambda>e. case e of Chunk r \<Rightarrow> [r] | _ \<Rightarrow> []) tr)"

definition progress_values :: "event list \<Rightarrow> int list" where
  "progress_values tr = concat (map (\<lambda>e. case e of Progress p \<Rightarrow> [p] | _ \<Rightarrow> []) tr)"

definition generate_requests :: "event list \<Rightarrow> generate_request list" where
  "generate_requests tr = concat (map (\<lambda>e. case e of Generate g \<Rightarrow> [g] | _ \<Rightarrow> []) tr)"

definition polling_only :: "event list \<Rightarrow> bool" where
  "polling_only tr =
     list_all (\<lambda>e. case e of Sleep _ \<Rightarrow> True | GetState _ \<Rightarrow> True | _ \<Rightarrow> False) tr"

definition ceil_div :: "nat \<Rightarrow> nat \<Rightarrow> nat" where
  "ceil_div a b = (a + b - 1) div b"

definition chunk_length :: "chunk_request \<Rightarrow> nat" where
  "chunk_length r = slice_end r - slice_start r"

definition exact_chunking :: "nat \<Rightarrow> nat \<Rightarrow> chunk_request list \<Rightarrow> bool" where
  "exact_chunking C S rs \<longleftrightarrow>
     length rs = ceil_div S C \<and>
     rs \<noteq> [] \<and> slice_start (hd rs) = 0 \<and> slice_end (last rs) = S \<and>
     (\<forall>i. Suc i < length rs \<longrightarrow>
        chunk_length (rs ! i) = C \<and> slice_start (rs ! Suc i) = slice_end (rs ! i)) \<and>
     (\<forall>i < length rs. slice_start (rs ! i) < slice_end (rs ! i)) \<and>
     chunk_length (last rs) \<le> C \<and>
     sum_list (map chunk_length rs) = S"

definition chunks_in_order :: "nat \<Rightarrow> nat \<Rightarrow> nat \<Rightarrow> chunk_request list \<Rightarrow> bool" where
  \<comment> \<open>the requests are the first ones of the chunking of \<open>[offset, S)\<close> into pieces of
      \<open>C\<close> bytes\<close>
  "chunks_in_order C S offset rs \<longleftrightarrow>
     length rs \<le> ceil_div (S - offset) C \<and>
     (\<forall>i<length rs. slice_start (rs ! i) = offset + i * C \<and>
                     slice_end (rs ! i) = min (offset + i * C + C) S)"

definition session_started :: "server \<Rightarrow> js_file \<Rightarrow> string \<Rightarrow> bool" where
  "session_started srv f apiKey \<longleftrightarrow>
     (\<exists>initRes. start_reply srv (start_request_of f apiKey (contentType_of f)) = Resolved initRes \<and>
                ok initRes \<and> \<not> falsy (x_goog_upload_url initRes))"

definition range_steps :: "nat \<Rightarrow> js_file \<Rightarrow> string \<Rightarrow> string \<Rightarrow> nat \<Rightarrow> event list" where
  \<comment> \<open>the effects of the first \<open>k\<close> iterations of the loop when each chunk is accepted\<close>
  "range_steps C f contentType resumableUrl k =
     concat (map (\<lambda>i. [Chunk (range_request f contentType resumableUrl (i * C)
                                (min (i * C + C) (file_size f))),
                        Progress (percent (min (i * C + C) (file_size f)) (file_size f))])
               [0..<k])"

definition command_steps :: "nat \<Rightarrow> js_file \<Rightarrow> string \<Rightarrow> string \<Rightarrow> nat \<Rightarrow> event list" where
  "command_steps C f contentType resumableUrl k =
     concat (map (\<lambda>i. [Chunk (command_request contentType resumableUrl (i * C)
                                (min (i * C + C) (file_size f))
                                (min (i * C + C) (file_size f) = file_size f)),
                        Progress (percent (min (i * C + C) (file_size f)) (file_size f))])
               [0..<k])"

definition accepted :: "server \<Rightarrow> chunk_request \<Rightarrow> bool" where
  "accepted srv req =
     (case chunk_reply srv req of
        Rejected \<Rightarrow> False
      | Resolved uploadRes \<Rightarrow> status uploadRes = 308 \<or> ok uploadRes)"


definition accepted_steps :: "nat \<Rightarrow> chunk_request list \<Rightarrow> event list" where
  "accepted_steps S rs =
     concat (map (\<lambda>r. [Chunk r, Progress (percent (slice_end r) S)]) rs)"




definition upload_phase :: "string \<Rightarrow> event list \<Rightarrow> bool" where
  \<comment> \<open>what the effects of an upload loop look like, whatever the server answers\<close>
  "upload_phase resumableUrl evs \<longleftrightarrow>
     generate_requests evs = [] \<and> sorted (progress_values evs) \<and>
     (\<forall>p\<in>set (progress_values evs). 0 \<le> p \<and> p \<le> 99) \<and>
     (\<forall>r\<in>set (chunk_requests evs). chunk_url r = resumableUrl)"

definition after_upload ::
  "server \<Rightarrow> js_file \<Rightarrow> string \<Rightarrow> bool option \<Rightarrow> event list \<Rightarrow> string
     \<Rightarrow> event list \<Rightarrow> error + string \<Rightarrow> bool" where
  \<comment> \<open>how \<open>transcribeMedia\<close> goes on after \<open>uploadToGemini\<close> has returned \<open>fileUri\<close>\<close>
  "after_upload srv f mimeType isComplex tr0 fileUri tr res \<longleftrightarrow>
     (let req = generate_request_of (safeMimeType mimeType f) fileUri (or_true isComplex)
      in case generate_reply srv req of
           Generated t \<Rightarrow>
             tr = tr0 @ [Progress 100, Generate req] \<and>
             res = Inr (or_default t ''No transcription generated.'')
         | GenerateThrew m \<Rightarrow>
             tr = tr0 @ [Progress 100, Generate req, ConsoleError] \<and>
             res = Inl (TranscribeFailed (or_default m ''Failed to transcribe media.'')))"


definition one_generation :: "bool option \<Rightarrow> event list \<Rightarrow> error + string \<Rightarrow> bool" where
  \<comment> \<open>at most one generation request, exactly one in a run that returns a text, and
      configured by the hint the caller passed (\<open>None\<close>: the argument was left undefined)\<close>
  "one_generation hint tr res \<longleftrightarrow>
     length (generate_requests tr) \<le> 1 \<and>
     (case res of Inr _ \<Rightarrow> length (generate_requests tr) = 1 | Inl _ \<Rightarrow> True) \<and>
     (\<forall>g\<in>set (generate_requests tr).
        (hint = Some True \<longrightarrow> model g = GEMINI_PRO_MODEL \<and> thinkingBudget g = Some 32768) \<and>
        (hint = None \<longrightarrow> model g = GEMINI_PRO_MODEL \<and> thinkingBudget g = Some 32768) \<and>
        (hint = Some False \<longrightarrow> model g = GEMINI_FLASH_MODEL \<and> thinkingBudget g = None))"

section \<open>A server to run the model on\<close>

definition demo_file :: "nat \<Rightarrow> js_file" where
  "demo_file n = \<lparr>file_size = n, file_type = ''audio/mpeg'', file_name = ''lecture.mp3''\<rparr>"

definition demo_response :: "nat \<Rightarrow> string option \<Rightarrow> string \<Rightarrow> response" where
  "demo_response code url st =
     \<lparr>status = code, statusText = ''status text'', x_goog_upload_url = url,
      body_text = Some ''body'',
      body_file = Some \<lparr>res_uri = ''https://example.org/files/abc'', res_name = ''files/abc'',
                         res_state = st\<rparr>\<rparr>"

definition by_protocol :: "nat \<Rightarrow> chunk_request \<Rightarrow> nat" where
  \<comment> \<open>308 to a \<open>PUT\<close> that does not reach the end of the file, 200 to everything else\<close>
  "by_protocol fileSize req =
     (if chunk_method req = ''PUT'' \<and> slice_end req < fileSize then 308 else 200)"

definition demo_server ::
  "string option \<Rightarrow> (chunk_request \<Rightarrow> nat) \<Rightarrow> string \<Rightarrow> string option \<Rightarrow> server" where
  "demo_server url chunk_status first_state generated_text =
     \<lparr>start_reply = (\<lambda>_. Resolved (demo_response 200 url [])),
      chunk_reply = (\<lambda>req. Resolved (demo_response (chunk_status req) None first_state)),
      state_reply = (\<lambda>n. Resolved (if n < 2 then ''PROCESSING'' else ''ACTIVE'')),
      generate_reply = (\<lambda>_. Generated generated_text)\<rparr>"

definition demo_url :: string where
  "demo_url = ''https://generativelanguage.googleapis.com/upload/v1beta/files?upload_id=abc''"


section \<open>The progress percentage is monotone\<close>

lemma floor_log2_bounds: "0 < n \<Longrightarrow> 2 ^ floor_log2 n \<le> n \<and> n < 2 ^ Suc (floor_log2 n)"
proof (induction n rule: floor_log2.induct)
  case (1 n)
  show ?case
  proof (cases "n < 2")
    case True
    with 1(2) show ?thesis by (simp add: floor_log2.simps)
  next
    case False
    then have "0 < n div 2" by simp
    with 1(1) False
    have IH: "2 ^ floor_log2 (n div 2) \<le> n div 2 \<and> n div 2 < 2 ^ Suc (floor_log2 (n div 2))"
      by simp
    have eq: "floor_log2 n = Suc (floor_log2 (n div 2))"
      using False by (subst floor_log2.simps) simp
    from IH show ?thesis unfolding eq by simp linarith
  qed
qed

lemma round_half_even_ge: "\<lfloor>x\<rfloor> \<le> round_half_even x"
  by (simp add: round_half_even_def Let_def)

lemma round_half_even_le: "round_half_even x \<le> \<lfloor>x\<rfloor> + 1"
  by (simp add: round_half_even_def Let_def)

lemma round_half_even_int: "round_half_even (of_int k) = k"
  by (simp add: round_half_even_def Let_def)

lemma round_half_even_mono: "x \<le> y \<Longrightarrow> round_half_even x \<le> round_half_even y"
proof -
  assume xy: "x \<le> y"
  have fl: "\<lfloor>x\<rfloor> \<le> \<lfloor>y\<rfloor>" using xy by (rule floor_mono)
  show ?thesis
  proof (cases "\<lfloor>x\<rfloor> = \<lfloor>y\<rfloor>")
    case True
    then have "x - of_int \<lfloor>x\<rfloor> \<le> y - of_int \<lfloor>y\<rfloor>" using xy by simp
    then show ?thesis using True by (auto simp: round_half_even_def Let_def)
  next
    case False
    then have "\<lfloor>x\<rfloor> + 1 \<le> \<lfloor>y\<rfloor>" using fl by simp
    then show ?thesis using round_half_even_le[of x] round_half_even_ge[of y] by linarith
  qed
qed

lemma ilog2_bounds:
  assumes "0 < x"
  shows "2 powi ilog2 x \<le> x \<and> x < 2 powi (ilog2 x + 1)"
proof -
  obtain p q where pq: "quotient_of x = (p, q)" by (cases "quotient_of x")
  have q: "0 < q" using pq by (rule quotient_of_denom_pos)
  have x: "x = of_int p / of_int q" using pq by (rule quotient_of_div)
  have p: "0 < p" using assms q unfolding x by (simp add: zero_less_divide_iff)
  define a where "a = floor_log2 p"
  define b where "b = floor_log2 q"
  define k where "k = int a - int b"
  have pa: "2 ^ a \<le> p \<and> p < 2 ^ Suc a"
    unfolding a_def using p by (rule floor_log2_bounds)
  have qb: "2 ^ b \<le> q \<and> q < 2 ^ Suc b"
    unfolding b_def using q by (rule floor_log2_bounds)
  have pa': "(2::rat) ^ a \<le> of_int p \<and> (of_int p :: rat) < 2 ^ Suc a"
    using pa by (metis of_int_le_iff of_int_less_iff of_int_numeral of_int_power)
  have qb': "(2::rat) ^ b \<le> of_int q \<and> (of_int q :: rat) < 2 ^ Suc b"
    using qb by (metis of_int_le_iff of_int_less_iff of_int_numeral of_int_power)
  have qpos: "(0::rat) < of_int q" using q by simp
  have k: "(2::rat) powi k = 2 ^ a / 2 ^ b"
    unfolding k_def by (simp add: power_int_diff)
  have k1: "(2::rat) powi (k + 1) = 2 ^ Suc a / 2 ^ b"
    by (simp add: power_int_add k)
  have km1: "(2::rat) powi (k - 1) = 2 ^ a / 2 ^ Suc b"
    by (simp add: power_int_diff k)
  have up: "x < 2 powi (k + 1)"
  proof -
    have "x * 2 ^ b \<le> x * of_int q" using qb' assms by simp
    also have "\<dots> = of_int p" unfolding x using q by simp
    also have "\<dots> < 2 ^ Suc a" using pa' by simp
    finally have "x * 2 ^ b < 2 ^ Suc a" .
    then show ?thesis unfolding k1 by (simp add: pos_less_divide_eq)
  qed
  have lo: "2 powi (k - 1) \<le> x"
  proof -
    have "(2::rat) ^ a \<le> of_int p" using pa' by simp
    also have "\<dots> = x * of_int q" unfolding x using q by simp
    also have "\<dots> \<le> x * 2 ^ Suc b" using qb' assms by (intro mult_left_mono) auto
    finally have "(2::rat) ^ a \<le> x * 2 ^ Suc b" .
    then show ?thesis unfolding km1 by (simp add: pos_divide_le_eq)
  qed
  have e: "ilog2 x = (if 2 powi k \<le> x then k else k - 1)"
    unfolding ilog2_def pq by (simp add: Let_def a_def b_def k_def)
  show ?thesis
  proof (cases "2 powi k \<le> x")
    case True
    then show ?thesis using up e by simp
  next
    case False
    then show ?thesis using lo e by simp
  qed
qed

lemma ilog2_mono:
  assumes "0 < x" "x \<le> y"
  shows "ilog2 x \<le> ilog2 y"
proof (rule ccontr)
  assume "\<not> ilog2 x \<le> ilog2 y"
  then have "ilog2 y + 1 \<le> ilog2 x" by simp
  then have "(2::rat) powi (ilog2 y + 1) \<le> 2 powi ilog2 x"
    by (intro power_int_increasing) auto
  moreover have "y < 2 powi (ilog2 y + 1)" using ilog2_bounds[of y] assms by simp
  moreover have "2 powi ilog2 x \<le> x" using ilog2_bounds[of x] assms by simp
  ultimately show False using assms by linarith
qed

lemma binary64_pos_nonneg: "0 < x \<Longrightarrow> 0 \<le> binary64_pos x"
proof -
  assume x: "0 < x"
  define u :: rat where "u = 2 powi (max (ilog2 x) (- 1022) - 52)"
  have u: "0 < u" unfolding u_def by (simp add: power_int_def)
  have "0 \<le> x / u" using x u by simp
  then have "0 \<le> \<lfloor>x / u\<rfloor>" by simp
  then have "0 \<le> round_half_even (x / u)" using round_half_even_ge[of "x / u"] by linarith
  then show ?thesis unfolding binary64_pos_def Let_def u_def[symmetric] using u by simp
qed

lemma binary64_pos_mono:
  assumes x: "0 < x" and xy: "x \<le> y"
  shows "binary64_pos x \<le> binary64_pos y"
proof -
  define ex where "ex = max (ilog2 x) (- 1022)"
  define ey where "ey = max (ilog2 y) (- 1022)"
  define ux :: rat where "ux = 2 powi (ex - 52)"
  define uy :: rat where "uy = 2 powi (ey - 52)"
  have y: "0 < y" using x xy by simp
  have ux: "0 < ux" and uy: "0 < uy" unfolding ux_def uy_def by (simp_all add: power_int_def)
  have bx: "binary64_pos x = of_int (round_half_even (x / ux)) * ux"
    unfolding binary64_pos_def Let_def ux_def ex_def ..
  have "by": "binary64_pos y = of_int (round_half_even (y / uy)) * uy"
    unfolding binary64_pos_def Let_def uy_def ey_def ..
  have exy: "ex \<le> ey" unfolding ex_def ey_def using ilog2_mono[OF x xy] by simp
  show ?thesis
  proof (cases "ex = ey")
    case True
    then have "ux = uy" unfolding ux_def uy_def by simp
    moreover have "x / uy \<le> y / uy" using xy uy by (simp add: divide_right_mono)
    then have "round_half_even (x / uy) \<le> round_half_even (y / uy)" by (rule round_half_even_mono)
    ultimately show ?thesis unfolding bx "by" using uy by simp
  next
    case False
    then have lt: "ex + 1 \<le> ey" using exy by simp
    then have ey: "ey = ilog2 y" unfolding ey_def ex_def by simp
    have sx: "ux * 2 ^ 53 = 2 powi (ex + 1)"
    proof -
      have "ex + 1 = (ex - 52) + 53" by arith
      then have "(2::rat) powi (ex + 1) = 2 powi ((ex - 52) + 53)" by (rule arg_cong)
      also have "\<dots> = 2 powi (ex - 52) * 2 powi 53" by (subst power_int_add) auto
      finally show ?thesis unfolding ux_def by simp
    qed
    have sy: "uy * 2 ^ 52 = 2 powi ey"
    proof -
      have "ey = (ey - 52) + 52" by arith
      then have "(2::rat) powi ey = 2 powi ((ey - 52) + 52)" by (rule arg_cong)
      also have "\<dots> = 2 powi (ey - 52) * 2 powi 52" by (subst power_int_add) auto
      finally show ?thesis unfolding uy_def by simp
    qed
    have "x < 2 powi (ilog2 x + 1)" using ilog2_bounds[OF x] by simp
    also have "\<dots> \<le> 2 powi (ex + 1)" unfolding ex_def by (intro power_int_increasing) auto
    finally have "x < ux * 2 ^ 53" unfolding sx .
    then have "x / ux < 2 ^ 53" using ux by (simp add: pos_divide_less_eq mult.commute)
    then have "x / ux < of_int (2 ^ 53)" by simp
    then have "\<lfloor>x / ux\<rfloor> < 2 ^ 53" unfolding floor_less_iff .
    then have "round_half_even (x / ux) \<le> 2 ^ 53"
      using round_half_even_le[of "x / ux"] by linarith
    then have "(of_int (round_half_even (x / ux)) :: rat) \<le> of_int (2 ^ 53)"
      unfolding of_int_le_iff .
    then have "binary64_pos x \<le> 2 ^ 53 * ux" unfolding bx using ux by simp
    also have "\<dots> = 2 powi (ex + 1)" using sx by (simp only: mult.commute)
    also have "\<dots> \<le> 2 powi ey" using lt by (intro power_int_increasing) auto
    finally have left: "binary64_pos x \<le> 2 powi ey" .
    have "2 powi ey \<le> y" unfolding ey using ilog2_bounds[OF y] by simp
    then have "uy * 2 ^ 52 \<le> y" unfolding sy .
    then have "2 ^ 52 \<le> y / uy" using uy by (simp add: pos_le_divide_eq mult.commute)
    then have "of_int (2 ^ 52) \<le> y / uy" by simp
    then have "2 ^ 52 \<le> \<lfloor>y / uy\<rfloor>" unfolding le_floor_iff .
    then have "2 ^ 52 \<le> round_half_even (y / uy)"
      using round_half_even_ge[of "y / uy"] by linarith
    then have "(of_int (2 ^ 52) :: rat) \<le> of_int (round_half_even (y / uy))"
      unfolding of_int_le_iff .
    then have "2 ^ 52 * uy \<le> binary64_pos y" unfolding "by" using uy by simp
    then have "2 powi ey \<le> binary64_pos y" using sy by (simp only: mult.commute)
    with left show ?thesis by linarith
  qed
qed

lemma binary64_nonneg: "0 \<le> x \<Longrightarrow> 0 \<le> binary64 x"
  by (simp add: binary64_def binary64_pos_nonneg)

lemma binary64_mono: "0 \<le> x \<Longrightarrow> x \<le> y \<Longrightarrow> binary64 x \<le> binary64 y"
  using binary64_pos_mono[of x y] binary64_pos_nonneg[of y]
  by (auto simp: binary64_def)

lemma percent_mono: "a \<le> b \<Longrightarrow> percent a n \<le> percent b n"
proof -
  assume ab: "a \<le> b"
  have "(of_nat a :: rat) / of_nat n \<le> of_nat b / of_nat n"
    using ab by (intro divide_right_mono) auto
  then have "binary64 (of_nat a / of_nat n) \<le> binary64 (of_nat b / of_nat n)"
    by (intro binary64_mono) auto
  then have "binary64 (of_nat a / of_nat n) * 100 \<le> binary64 (of_nat b / of_nat n) * 100"
    by simp
  moreover have "0 \<le> binary64 (of_nat a / of_nat n) * 100"
    using binary64_nonneg[of "of_nat a / of_nat n"] by simp
  ultimately have "binary64 (binary64 (of_nat a / of_nat n) * 100)
      \<le> binary64 (binary64 (of_nat b / of_nat n) * 100)"
    by (intro binary64_mono)
  then have "Math_round (binary64 (binary64 (of_nat a / of_nat n) * 100))
      \<le> Math_round (binary64 (binary64 (of_nat b / of_nat n) * 100))"
    unfolding Math_round_def by (intro floor_mono) simp
  then show ?thesis unfolding percent_def by simp
qed

lemma percent_range: "0 \<le> percent a n \<and> percent a n \<le> 99"
proof -
  have "0 \<le> binary64 (of_nat a / of_nat n) * 100"
    using binary64_nonneg[of "of_nat a / of_nat n"] by simp
  then have "0 \<le> binary64 (binary64 (of_nat a / of_nat n) * 100)" by (rule binary64_nonneg)
  then have "0 \<le> Math_round (binary64 (binary64 (of_nat a / of_nat n) * 100))"
    unfolding Math_round_def by simp
  then show ?thesis unfolding percent_def by simp
qed

section \<open>Traces: what a run sends and reports\<close>

lemma chunk_requests_simps [simp]:
  "chunk_requests [] = []"
  "chunk_requests (xs @ ys) = chunk_requests xs @ chunk_requests ys"
  "chunk_requests (Chunk r # xs) = r # chunk_requests xs"
  "chunk_requests (Start s # xs) = chunk_requests xs"
  "chunk_requests (Progress p # xs) = chunk_requests xs"
  "chunk_requests (Sleep ms # xs) = chunk_requests xs"
  "chunk_requests (GetState u # xs) = chunk_requests xs"
  "chunk_requests (Generate g # xs) = chunk_requests xs"
  "chunk_requests (ConsoleError # xs) = chunk_requests xs"
  by (simp_all add: chunk_requests_def)

lemma progress_values_simps [simp]:
  "progress_values [] = []"
  "progress_values (xs @ ys) = progress_values xs @ progress_values ys"
  "progress_values (Progress p # xs) = p # progress_values xs"
  "progress_values (Start s # xs) = progress_values xs"
  "progress_values (Chunk r # xs) = progress_values xs"
  "progress_values (Sleep ms # xs) = progress_values xs"
  "progress_values (GetState u # xs) = progress_values xs"
  "progress_values (Generate g # xs) = progress_values xs"
  "progress_values (ConsoleError # xs) = progress_values xs"
  by (simp_all add: progress_values_def)

lemma generate_requests_simps [simp]:
  "generate_requests [] = []"
  "generate_requests (xs @ ys) = generate_requests xs @ generate_requests ys"
  "generate_requests (Generate g # xs) = g # generate_requests xs"
  "generate_requests (Start s # xs) = generate_requests xs"
  "generate_requests (Chunk r # xs) = generate_requests xs"
  "generate_requests (Progress p # xs) = generate_requests xs"
  "generate_requests (Sleep ms # xs) = generate_requests xs"
  "generate_requests (GetState u # xs) = generate_requests xs"
  "generate_requests (ConsoleError # xs) = generate_requests xs"
  by (simp_all add: generate_requests_def)

lemma polling_only_simps [simp]:
  "polling_only []"
  "polling_only (xs @ ys) \<longleftrightarrow> polling_only xs \<and> polling_only ys"
  "polling_only (Sleep ms # xs) \<longleftrightarrow> polling_only xs"
  "polling_only (GetState u # xs) \<longleftrightarrow> polling_only xs"
  by (simp_all add: polling_only_def)

lemma polling_only_silent:
  "polling_only evs \<Longrightarrow>
     chunk_requests evs = [] \<and> progress_values evs = [] \<and> generate_requests evs = []"
  by (induction evs) (auto simp: polling_only_def split: event.splits)

lemmas poll_state_induct = poll_state.raw_induct [rotated 1, consumes 1, case_names step]

lemma poll_state_trace_fst:
  assumes "poll_state srv fileName apiKey state n tr = Some y"
  shows "\<exists>evs. fst y = tr @ evs \<and> polling_only evs"
  using assms
proof (induct rule: poll_state_induct)
  case (step poll srv fileName apiKey state n tr y)
  show ?case
  proof (cases "state = ''PROCESSING''")
    case False
    with step(2) show ?thesis by auto
  next
    case True
    note processing = this
    show ?thesis
    proof (cases "state_reply srv n")
      case Rejected
      with processing step(2) show ?thesis by (auto simp: Let_def)
    next
      case (Resolved st)
      show ?thesis
      proof (cases "st = ''FAILED''")
        case True
        with processing Resolved step(2) show ?thesis by (auto simp: Let_def)
      next
        case False
        with processing Resolved step(2)
        have "poll srv fileName apiKey st (Suc n)
                (tr @ [Sleep 2000,
                       GetState (API_HOST @ ''/v1beta/'' @ fileName @ ''?key='' @ apiKey)])
              = Some y"
          by (simp add: Let_def)
        from step(1)[OF this] show ?thesis by auto
      qed
    qed
  qed
qed

lemma poll_state_trace:
  "poll_state srv fileName apiKey state n tr = Some (tr', res) \<Longrightarrow>
     \<exists>evs. tr' = tr @ evs \<and> polling_only evs"
  using poll_state_trace_fst by fastforce

lemma poll_state_done:
  "state \<noteq> ''PROCESSING'' \<Longrightarrow> poll_state srv fileName apiKey state n tr = Some (tr, Inr ())"
  by (subst poll_state.simps) simp

lemma poll_state_settles:
  assumes "state_reply srv k \<noteq> Resolved ''PROCESSING''" and "n \<le> k"
  shows "\<exists>y. poll_state srv fileName apiKey state n tr = Some y"
  using assms(2)
proof (induction "k - n" arbitrary: n state tr)
  case 0
  then have nk: "n = k" by simp
  show ?case
  proof (cases "state = ''PROCESSING''")
    case False
    then show ?thesis by (simp add: poll_state_done)
  next
    case True
    show ?thesis
    proof (cases "state_reply srv n")
      case Rejected
      with True show ?thesis by (subst poll_state.simps) (simp add: Let_def)
    next
      case (Resolved st)
      with assms(1) nk have "st \<noteq> ''PROCESSING''" by auto
      with True Resolved show ?thesis
        by (subst poll_state.simps) (simp add: Let_def poll_state_done)
    qed
  qed
next
  case (Suc d)
  then have d: "d = k - Suc n" and le: "Suc n \<le> k" by simp_all
  show ?case
  proof (cases "state = ''PROCESSING''")
    case False
    then show ?thesis by (simp add: poll_state_done)
  next
    case True
    show ?thesis
    proof (cases "state_reply srv n")
      case Rejected
      with True show ?thesis by (subst poll_state.simps) (simp add: Let_def)
    next
      case (Resolved st)
      show ?thesis
      proof (cases "st = ''FAILED''")
        case True
        with \<open>state = ''PROCESSING''\<close> Resolved show ?thesis
          by (subst poll_state.simps) (simp add: Let_def)
      next
        case False
        from Suc(1)[OF d le] obtain y where
          "poll_state srv fileName apiKey st (Suc n)
             (tr @ [Sleep 2000,
                    GetState (API_HOST @ ''/v1beta/'' @ fileName @ ''?key='' @ apiKey)]) = Some y"
          by blast
        with False \<open>state = ''PROCESSING''\<close> Resolved show ?thesis
          by (subst poll_state.simps) (simp add: Let_def)
      qed
    qed
  qed
qed

lemma finish_upload_trace:
  assumes "finish_upload srv apiKey uploadRes tr = Some (tr', res)"
  shows "\<exists>evs. tr' = tr @ evs \<and> polling_only evs"
proof (cases "body_file uploadRes")
  case None
  with assms show ?thesis by (auto simp: finish_upload_def)
next
  case (Some d)
  with assms obtain y where
    y: "poll_state srv (res_name d) apiKey (res_state d) 0 tr = Some y" and "fst y = tr'"
    by (auto simp: finish_upload_def split: option.splits sum.splits prod.splits)
  with poll_state_trace_fst[OF y] show ?thesis by auto
qed

lemma finish_upload_settles:
  assumes "state_reply srv k \<noteq> Resolved ''PROCESSING''"
  shows "\<exists>evs res. finish_upload srv apiKey uploadRes tr = Some (tr @ evs, res) \<and> polling_only evs"
proof -
  have "\<exists>y. finish_upload srv apiKey uploadRes tr = Some y"
  proof (cases "body_file uploadRes")
    case None
    then show ?thesis by (simp add: finish_upload_def)
  next
    case (Some d)
    from poll_state_settles[OF assms, of 0 "res_name d" apiKey "res_state d" tr]
    obtain y where "poll_state srv (res_name d) apiKey (res_state d) 0 tr = Some y" by auto
    with Some show ?thesis
      by (cases y) (auto simp: finish_upload_def split: sum.splits)
  qed
  then obtain tr' res where "finish_upload srv apiKey uploadRes tr = Some (tr', res)" by auto
  with finish_upload_trace[OF this] show ?thesis by auto
qed

section \<open>Chunk arithmetic\<close>

lemma pred_mult_add: "0 < n \<Longrightarrow> (n - 1) * C + C = n * (C::nat)"
  by (cases n) simp_all

lemma ceil_div_bounds:
  assumes "0 < C" "0 < S"
  shows "(ceil_div S C - 1) * C < S \<and> S \<le> ceil_div S C * C \<and> 0 < ceil_div S C"
proof -
  define n where "n = ceil_div S C"
  have eq: "S + C - 1 = n * C + (S + C - 1) mod C"
    unfolding n_def ceil_div_def by simp
  have md: "(S + C - 1) mod C < C" using assms by simp
  have pos: "0 < n"
  proof (rule ccontr)
    assume "\<not> 0 < n"
    then have "S + C - 1 < C" using eq md by simp
    then show False using assms by simp
  qed
  have up: "S \<le> n * C" using eq md assms by linarith
  have "(n - 1) * C + C = n * C" using pos by (rule pred_mult_add)
  then have lo: "(n - 1) * C < S" using eq assms by linarith
  from lo up pos show ?thesis unfolding n_def by simp
qed

lemma sum_chunk_lengths:
  assumes "\<forall>i<length rs. slice_start (rs ! i) = i * C \<and> slice_end (rs ! i) = min (i * C + C) S"
    and "(length rs - 1) * C \<le> S"
  shows "sum_list (map chunk_length rs) = min (length rs * C) S"
  using assms
proof (induction rs rule: rev_induct)
  case Nil
  show ?case by simp
next
  case (snoc r rs)
  have r: "slice_start r = length rs * C" "slice_end r = min (length rs * C + C) S"
    using snoc.prems(1)[rule_format, of "length rs"] by simp_all
  have le: "length rs * C \<le> S" using snoc.prems(2) by simp
  have pre: "\<forall>i<length rs. slice_start (rs ! i) = i * C \<and> slice_end (rs ! i) = min (i * C + C) S"
  proof (intro allI impI)
    fix i assume "i < length rs"
    then show "slice_start (rs ! i) = i * C \<and> slice_end (rs ! i) = min (i * C + C) S"
      using snoc.prems(1)[rule_format, of i] by (simp add: nth_append)
  qed
  have "(length rs - 1) * C \<le> length rs * C" by simp
  with le have "(length rs - 1) * C \<le> S" by linarith
  from snoc.IH[OF pre this] le
  have sum: "sum_list (map chunk_length rs) = length rs * C" by simp
  have "chunk_length r = min (length rs * C + C) S - length rs * C"
    by (simp add: chunk_length_def r)
  with sum le show ?case by (simp add: add.commute)
qed

lemma exact_chunking_canonical:
  assumes C: "0 < C" and S: "0 < S"
    and len: "length rs = ceil_div S C"
    and rs: "\<forall>i<length rs. slice_start (rs ! i) = i * C \<and> slice_end (rs ! i) = min (i * C + C) S"
  shows "exact_chunking C S rs"
proof -
  define n where "n = ceil_div S C"
  from ceil_div_bounds[OF C S] have lo: "(n - 1) * C < S" and up: "S \<le> n * C" and n: "0 < n"
    unfolding n_def by simp_all
  have ne: "rs \<noteq> []" using len n unfolding n_def by auto
  have l: "length rs = n" using len n_def by simp
  have hd0: "slice_start (hd rs) = 0"
    using rs[rule_format, of 0] ne by (simp add: hd_conv_nth)
  have "n - 1 < length rs" using l n by simp
  from rs[rule_format, OF this]
  have lst: "slice_start (last rs) = (n - 1) * C" "slice_end (last rs) = min ((n - 1) * C + C) S"
    using ne l by (simp_all add: last_conv_nth)
  have nC: "(n - 1) * C + C = n * C" using n by (rule pred_mult_add)
  have last_end: "slice_end (last rs) = S" using lst(2) up unfolding nC by simp
  have last_len: "chunk_length (last rs) \<le> C"
    unfolding chunk_length_def last_end lst(1) using up nC by linarith
  have mid: "\<forall>i. Suc i < length rs \<longrightarrow>
        chunk_length (rs ! i) = C \<and> slice_start (rs ! Suc i) = slice_end (rs ! i)"
  proof (intro allI impI)
    fix i assume i: "Suc i < length rs"
    then have "Suc i \<le> n - 1" using l by simp
    then have "Suc i * C \<le> (n - 1) * C" by (rule mult_le_mono1)
    then have "Suc i * C < S" using lo by (rule le_less_trans)
    then have b: "i * C + C < S" by (simp add: add.commute)
    have "i < length rs" using i by simp
    from rs[rule_format, OF this] rs[rule_format, OF i] b
    show "chunk_length (rs ! i) = C \<and> slice_start (rs ! Suc i) = slice_end (rs ! i)"
      by (simp add: chunk_length_def add.commute)
  qed
  have nonempty: "\<forall>i<length rs. slice_start (rs ! i) < slice_end (rs ! i)"
  proof (intro allI impI)
    fix i assume i: "i < length rs"
    then have "i \<le> n - 1" using l by simp
    then have "i * C \<le> (n - 1) * C" by (rule mult_le_mono1)
    then have "i * C < S" using lo by (rule le_less_trans)
    with rs[rule_format, OF i] C show "slice_start (rs ! i) < slice_end (rs ! i)" by simp
  qed
  have "(length rs - 1) * C \<le> S" using lo l by simp
  from sum_chunk_lengths[OF rs this]
  have total: "sum_list (map chunk_length rs) = S" using up l by simp
  show ?thesis
    unfolding exact_chunking_def
    by (intro conjI len ne hd0 last_end mid nonempty last_len total)
qed

section \<open>The upload loop of src/services/geminiService.ts\<close>

lemma upload_loop_exit:
  "\<not> offset < file_size f \<Longrightarrow>
     upload_loop C srv f apiKey contentType resumableUrl offset tr = Some (tr, Inl LoopFinished)"
  by (subst upload_loop.simps) simp

lemma upload_loop_continue:
  assumes "offset < file_size f"
    and "chunk_reply srv (range_request f contentType resumableUrl offset
           (min (offset + C) (file_size f))) = Resolved r"
    and "status r = 308"
  shows "upload_loop C srv f apiKey contentType resumableUrl offset tr =
         upload_loop C srv f apiKey contentType resumableUrl (min (offset + C) (file_size f))
           (tr @ [Chunk (range_request f contentType resumableUrl offset
                           (min (offset + C) (file_size f))),
                  Progress (percent (min (offset + C) (file_size f)) (file_size f))])"
  using assms by (subst upload_loop.simps) (simp add: Let_def ok_def)


lemma range_steps_Suc:
  "range_steps C f contentType resumableUrl (Suc k) =
     range_steps C f contentType resumableUrl k @
       [Chunk (range_request f contentType resumableUrl (k * C) (min (k * C + C) (file_size f))),
        Progress (percent (min (k * C + C) (file_size f)) (file_size f))]"
  by (simp add: range_steps_def)

lemma upload_loop_iterate:
  assumes "\<forall>i<k. i * C < file_size f \<and>
             (\<exists>r. chunk_reply srv (range_request f contentType resumableUrl (i * C)
                      (min (i * C + C) (file_size f))) = Resolved r \<and> status r = 308)"
  shows "upload_loop C srv f apiKey contentType resumableUrl 0 tr =
         upload_loop C srv f apiKey contentType resumableUrl (min (k * C) (file_size f))
           (tr @ range_steps C f contentType resumableUrl k)"
  using assms
proof (induction k)
  case 0
  show ?case by (simp add: range_steps_def)
next
  case (Suc k)
  then have IH: "upload_loop C srv f apiKey contentType resumableUrl 0 tr =
         upload_loop C srv f apiKey contentType resumableUrl (min (k * C) (file_size f))
           (tr @ range_steps C f contentType resumableUrl k)"
    by simp
  from Suc.prems obtain r where
    lt: "k * C < file_size f" and
    r: "chunk_reply srv (range_request f contentType resumableUrl (k * C)
          (min (k * C + C) (file_size f))) = Resolved r" "status r = 308"
    by auto
  from lt have m: "min (k * C) (file_size f) = k * C" by simp
  show ?case
    unfolding IH m
    by (subst upload_loop_continue[OF lt r]) (simp add: range_steps_Suc add.commute)
qed

lemma chunk_requests_range_steps:
  "chunk_requests (range_steps C f contentType resumableUrl k) =
     map (\<lambda>i. range_request f contentType resumableUrl (i * C) (min (i * C + C) (file_size f)))
       [0..<k]"
  by (induction k) (simp_all add: range_steps_Suc, simp add: range_steps_def)

lemma progress_values_range_steps:
  "progress_values (range_steps C f contentType resumableUrl k) =
     map (\<lambda>i. percent (min (i * C + C) (file_size f)) (file_size f)) [0..<k]"
  by (induction k) (simp_all add: range_steps_Suc, simp add: range_steps_def)

lemma slice_range_request [simp]:
  "slice_start (range_request f contentType resumableUrl a b) = a"
  "slice_end (range_request f contentType resumableUrl a b) = b"
  "chunk_url (range_request f contentType resumableUrl a b) = resumableUrl"
  "chunk_method (range_request f contentType resumableUrl a b) = ''PUT''"
  by (simp_all add: range_request_def)

lemma upload_loop_last:
  assumes lt: "offset < file_size f" and ge: "file_size f \<le> offset + C"
    and settles: "state_reply srv k \<noteq> Resolved ''PROCESSING''"
  shows "\<exists>evs res. upload_loop C srv f apiKey contentType resumableUrl offset tr =
           Some (tr @ Chunk (range_request f contentType resumableUrl offset (file_size f)) # evs, res)
         \<and> chunk_requests evs = []"
proof -
  let ?req = "range_request f contentType resumableUrl offset (file_size f)"
  let ?p = "Progress (percent (file_size f) (file_size f))"
  have m: "min (offset + C) (file_size f) = file_size f" using ge by simp
  show ?thesis
  proof (cases "chunk_reply srv ?req")
    case Rejected
    then have "upload_loop C srv f apiKey contentType resumableUrl offset tr =
        Some (tr @ Chunk ?req # [], Inl Rejection)"
      using lt m by (subst upload_loop.simps) (simp add: Let_def)
    then show ?thesis by force
  next
    case (Resolved r)
    show ?thesis
    proof (cases "status r \<noteq> 308 \<and> \<not> ok r")
      case True
      then have "upload_loop C srv f apiKey contentType resumableUrl offset tr =
          Some (tr @ Chunk ?req # [],
                Inl (case body_text r of None \<Rightarrow> Rejection
                     | Some errorText \<Rightarrow> UploadFailed offset (status r) (statusText r) errorText))"
        using lt m Resolved
        by (subst upload_loop.simps) (simp add: Let_def split: option.splits)
      then show ?thesis by force
    next
      case False
      note accepted = this
      show ?thesis
      proof (cases "ok r \<and> status r \<noteq> 308")
        case True
        from finish_upload_settles[OF settles, of apiKey r "tr @ [Chunk ?req, ?p]"]
        obtain evs res where
          fin: "finish_upload srv apiKey r (tr @ [Chunk ?req, ?p]) =
                  Some ((tr @ [Chunk ?req, ?p]) @ evs, res)" and po: "polling_only evs"
          by blast
        have "upload_loop C srv f apiKey contentType resumableUrl offset tr =
            Some (tr @ Chunk ?req # (?p # evs), res)"
          using lt m Resolved True fin by (subst upload_loop.simps) (simp add: Let_def)
        moreover have "chunk_requests (?p # evs) = []"
          using polling_only_silent[OF po] by simp
        ultimately show ?thesis by blast
      next
        case False
        have "upload_loop C srv f apiKey contentType resumableUrl offset tr =
            upload_loop C srv f apiKey contentType resumableUrl (file_size f)
              (tr @ [Chunk ?req, ?p])"
          using lt m Resolved False accepted
          by (subst upload_loop.simps) (auto simp: Let_def ok_def)
        also have "\<dots> = Some (tr @ Chunk ?req # [?p], Inl LoopFinished)"
          by (simp add: upload_loop_exit)
        finally show ?thesis by force
      qed
    qed
  qed
qed

lemma upload_loop_all_chunks:
  assumes C: "0 < C" and S: "0 < file_size f"
    and H: "\<forall>req. chunk_method req = ''PUT'' \<and> slice_end req < file_size f \<longrightarrow>
              (\<exists>r. chunk_reply srv req = Resolved r \<and> status r = 308)"
    and settles: "state_reply srv k \<noteq> Resolved ''PROCESSING''"
  shows "\<exists>evs res. upload_loop C srv f apiKey contentType resumableUrl 0 tr = Some (tr @ evs, res)
         \<and> chunk_requests evs =
             map (\<lambda>i. range_request f contentType resumableUrl (i * C)
                        (min (i * C + C) (file_size f)))
               [0..<ceil_div (file_size f) C]"
proof -
  define n where "n = ceil_div (file_size f) C"
  define m where "m = n - 1"
  from ceil_div_bounds[OF C S]
  have lo: "m * C < file_size f" and up: "file_size f \<le> n * C" and n: "0 < n"
    unfolding n_def m_def by simp_all
  have nm: "n = Suc m" using n m_def by simp
  have up': "file_size f \<le> m * C + C" using up nm by (simp add: add.commute)
  have cont: "\<forall>i<m. i * C < file_size f \<and>
             (\<exists>r. chunk_reply srv (range_request f contentType resumableUrl (i * C)
                      (min (i * C + C) (file_size f))) = Resolved r \<and> status r = 308)"
  proof (intro allI impI)
    fix i assume "i < m"
    then have "Suc i \<le> m" by simp
    then have "Suc i * C \<le> m * C" by (rule mult_le_mono1)
    then have "Suc i * C < file_size f" using lo by (rule le_less_trans)
    then have b: "i * C + C < file_size f" by (simp add: add.commute)
    then have "chunk_method (range_request f contentType resumableUrl (i * C)
                 (min (i * C + C) (file_size f))) = ''PUT'' \<and>
               slice_end (range_request f contentType resumableUrl (i * C)
                 (min (i * C + C) (file_size f))) < file_size f" by simp
    with H b show "i * C < file_size f \<and>
             (\<exists>r. chunk_reply srv (range_request f contentType resumableUrl (i * C)
                      (min (i * C + C) (file_size f))) = Resolved r \<and> status r = 308)"
      by auto
  qed
  have mm: "min (m * C) (file_size f) = m * C" using lo by simp
  from upload_loop_last[OF lo up' settles, of apiKey contentType resumableUrl
         "tr @ range_steps C f contentType resumableUrl m"]
  obtain evs res where
    fin: "upload_loop C srv f apiKey contentType resumableUrl (m * C)
            (tr @ range_steps C f contentType resumableUrl m) =
          Some ((tr @ range_steps C f contentType resumableUrl m) @
                Chunk (range_request f contentType resumableUrl (m * C) (file_size f)) # evs, res)"
    and silent: "chunk_requests evs = []"
    by blast
  have run: "upload_loop C srv f apiKey contentType resumableUrl 0 tr =
      Some (tr @ (range_steps C f contentType resumableUrl m @
                  Chunk (range_request f contentType resumableUrl (m * C) (file_size f)) # evs),
            res)"
    using upload_loop_iterate[OF cont, of apiKey tr] fin unfolding mm by simp
  have "min (m * C + C) (file_size f) = file_size f" using up' by simp
  then have "chunk_requests (range_steps C f contentType resumableUrl m @
                  Chunk (range_request f contentType resumableUrl (m * C) (file_size f)) # evs) =
      map (\<lambda>i. range_request f contentType resumableUrl (i * C) (min (i * C + C) (file_size f)))
        [0..<Suc m]"
    using silent by (simp add: chunk_requests_range_steps)
  with run show ?thesis unfolding n_def[symmetric] nm by blast
qed

lemma exact_chunking_range:
  assumes "0 < C" "0 < file_size f"
  shows "exact_chunking C (file_size f)
           (map (\<lambda>i. range_request f contentType resumableUrl (i * C)
                      (min (i * C + C) (file_size f)))
              [0..<ceil_div (file_size f) C])"
  by (rule exact_chunking_canonical[OF assms]) simp_all

lemmas upload_loop_induct = upload_loop.raw_induct [rotated 1, consumes 1, case_names step]

lemma upload_loop_safe_fst:
  assumes "upload_loop C srv f apiKey contentType resumableUrl offset tr = Some y"
  shows "\<exists>evs. fst y = tr @ evs \<and> generate_requests evs = [] \<and>
           sorted (progress_values evs) \<and>
           (\<forall>p\<in>set (progress_values evs). percent offset (file_size f) \<le> p \<and> p \<le> 99) \<and>
           (\<forall>r\<in>set (chunk_requests evs). chunk_url r = resumableUrl)"
  using assms
proof (induct rule: upload_loop_induct)
  case (step loop C srv f apiKey contentType resumableUrl offset tr y)
  let ?S = "file_size f"
  let ?e = "min (offset + C) ?S"
  let ?req = "range_request f contentType resumableUrl offset ?e"
  let ?tr2 = "tr @ [Chunk ?req, Progress (percent ?e ?S)]"
  show ?case
  proof (cases "offset < ?S")
    case False
    with step(2) show ?thesis by auto
  next
    case True
    note lt = this
    then have oe: "offset \<le> ?e" by simp
    show ?thesis
    proof (cases "chunk_reply srv ?req")
      case Rejected
      with lt step(2) have "fst y = tr @ [Chunk ?req]" by (auto simp: Let_def)
      then show ?thesis by simp
    next
      case (Resolved r)
      show ?thesis
      proof (cases "status r \<noteq> 308 \<and> \<not> ok r")
        case True
        with lt Resolved step(2) have "fst y = tr @ [Chunk ?req]"
          by (auto simp: Let_def split: option.splits)
        then show ?thesis by simp
      next
        case False
        note accepted = this
        have "\<exists>evs. fst y = ?tr2 @ evs \<and> generate_requests evs = [] \<and>
                 sorted (progress_values evs) \<and>
                 (\<forall>p\<in>set (progress_values evs). percent ?e ?S \<le> p \<and> p \<le> 99) \<and>
                 (\<forall>r\<in>set (chunk_requests evs). chunk_url r = resumableUrl)"
        proof (cases "ok r \<and> status r \<noteq> 308")
          case True
          with lt Resolved accepted step(2)
          have "finish_upload srv apiKey r ?tr2 = Some y" by (simp add: Let_def)
          then have "finish_upload srv apiKey r ?tr2 = Some (fst y, snd y)" by simp
          from finish_upload_trace[OF this] obtain evs where
            "fst y = ?tr2 @ evs" "polling_only evs" by blast
          with polling_only_silent[of evs] show ?thesis by auto
        next
          case False
          with accepted have "status r = 308" by auto
          with lt Resolved step(2)
          have "loop C srv f apiKey contentType resumableUrl ?e ?tr2 = Some y"
            by (simp add: Let_def)
          from step(1)[OF this] show ?thesis .
        qed
        then obtain evs where evs: "fst y = ?tr2 @ evs" "generate_requests evs = []"
          "sorted (progress_values evs)"
          "\<forall>p\<in>set (progress_values evs). percent ?e ?S \<le> p \<and> p \<le> 99"
          "\<forall>r\<in>set (chunk_requests evs). chunk_url r = resumableUrl"
          by blast
        have mono: "percent offset ?S \<le> percent ?e ?S" using oe by (rule percent_mono)
        have rng: "percent ?e ?S \<le> 99" using percent_range by simp
        let ?evs = "[Chunk ?req, Progress (percent ?e ?S)] @ evs"
        have "fst y = tr @ ?evs" using evs(1) by simp
        moreover have "generate_requests ?evs = []" using evs(2) by simp
        moreover have "sorted (progress_values ?evs)" using evs(3,4) by simp
        moreover have "\<forall>p\<in>set (progress_values ?evs). percent offset ?S \<le> p \<and> p \<le> 99"
          using evs(4) mono rng by auto
        moreover have "\<forall>r\<in>set (chunk_requests ?evs). chunk_url r = resumableUrl"
          using evs(5) by simp
        ultimately show ?thesis by blast
      qed
    qed
  qed
qed

section \<open>The upload loop of src/unnamed/part_002\<close>

lemma slice_command_request [simp]:
  "slice_start (command_request contentType resumableUrl a b l) = a"
  "slice_end (command_request contentType resumableUrl a b l) = b"
  "chunk_url (command_request contentType resumableUrl a b l) = resumableUrl"
  "chunk_method (command_request contentType resumableUrl a b l) = ''POST''"
  by (simp_all add: command_request_def)

lemma upload_loop_part_002_continue:
  assumes "offset + C < file_size f"
    and "chunk_reply srv (command_request contentType resumableUrl offset (offset + C) False)
           = Resolved r"
    and "ok r"
  shows "upload_loop_part_002 C srv f apiKey contentType resumableUrl offset tr =
         upload_loop_part_002 C srv f apiKey contentType resumableUrl (offset + C)
           (tr @ [Chunk (command_request contentType resumableUrl offset (offset + C) False),
                  Progress (percent (offset + C) (file_size f))])"
proof -
  have "offset < file_size f" "min (offset + C) (file_size f) = offset + C"
    "offset + C \<noteq> file_size f"
    using assms(1) by simp_all
  then show ?thesis
    using assms(2,3) by (subst upload_loop_part_002.simps) (simp add: Let_def)
qed


lemma command_steps_Suc:
  "command_steps C f contentType resumableUrl (Suc k) =
     command_steps C f contentType resumableUrl k @
       [Chunk (command_request contentType resumableUrl (k * C) (min (k * C + C) (file_size f))
                 (min (k * C + C) (file_size f) = file_size f)),
        Progress (percent (min (k * C + C) (file_size f)) (file_size f))]"
  by (simp add: command_steps_def)

lemma upload_loop_part_002_iterate:
  assumes "\<forall>i<k. i * C + C < file_size f \<and>
             (\<exists>r. chunk_reply srv (command_request contentType resumableUrl (i * C)
                      (i * C + C) False) = Resolved r \<and> ok r)"
  shows "upload_loop_part_002 C srv f apiKey contentType resumableUrl 0 tr =
         upload_loop_part_002 C srv f apiKey contentType resumableUrl (k * C)
           (tr @ command_steps C f contentType resumableUrl k)"
  using assms
proof (induction k)
  case 0
  show ?case by (simp add: command_steps_def)
next
  case (Suc k)
  have "\<forall>i<k. i * C + C < file_size f \<and>
             (\<exists>r. chunk_reply srv (command_request contentType resumableUrl (i * C)
                      (i * C + C) False) = Resolved r \<and> ok r)"
    using Suc.prems less_SucI by blast
  then have IH: "upload_loop_part_002 C srv f apiKey contentType resumableUrl 0 tr =
         upload_loop_part_002 C srv f apiKey contentType resumableUrl (k * C)
           (tr @ command_steps C f contentType resumableUrl k)"
    by (rule Suc.IH)
  from Suc.prems obtain r where
    lt: "k * C + C < file_size f" and
    r: "chunk_reply srv (command_request contentType resumableUrl (k * C) (k * C + C) False)
          = Resolved r" "ok r"
    by blast
  from lt have e: "min (C + k * C) (file_size f) = C + k * C"
    "C + k * C \<noteq> file_size f" by (simp_all add: add.commute)
  show ?case
    unfolding IH
    by (subst upload_loop_part_002_continue[OF lt r]) (simp add: command_steps_Suc e add.commute)
qed

lemma chunk_requests_command_steps:
  "chunk_requests (command_steps C f contentType resumableUrl k) =
     map (\<lambda>i. command_request contentType resumableUrl (i * C) (min (i * C + C) (file_size f))
                 (min (i * C + C) (file_size f) = file_size f))
       [0..<k]"
  by (induction k) (simp_all add: command_steps_Suc, simp add: command_steps_def)

lemma progress_values_command_steps:
  "progress_values (command_steps C f contentType resumableUrl k) =
     map (\<lambda>i. percent (min (i * C + C) (file_size f)) (file_size f)) [0..<k]"
  by (induction k) (simp_all add: command_steps_Suc, simp add: command_steps_def)

lemma upload_loop_part_002_last:
  assumes lt: "offset < file_size f" and ge: "file_size f \<le> offset + C"
    and settles: "state_reply srv k \<noteq> Resolved ''PROCESSING''"
  shows "\<exists>evs res. upload_loop_part_002 C srv f apiKey contentType resumableUrl offset tr =
           Some (tr @ Chunk (command_request contentType resumableUrl offset (file_size f) True)
                      # evs, res)
         \<and> chunk_requests evs = []"
proof -
  let ?req = "command_request contentType resumableUrl offset (file_size f) True"
  let ?p = "Progress (percent (file_size f) (file_size f))"
  have m: "min (offset + C) (file_size f) = file_size f" using ge by simp
  show ?thesis
  proof (cases "chunk_reply srv ?req")
    case Rejected
    then have "upload_loop_part_002 C srv f apiKey contentType resumableUrl offset tr =
        Some (tr @ Chunk ?req # [], Inl Rejection)"
      using lt m by (subst upload_loop_part_002.simps) (simp add: Let_def)
    then show ?thesis by force
  next
    case (Resolved r)
    show ?thesis
    proof (cases "ok r")
      case False
      then have "upload_loop_part_002 C srv f apiKey contentType resumableUrl offset tr =
          Some (tr @ Chunk ?req # [],
                Inl (case body_text r of None \<Rightarrow> Rejection
                     | Some errorText \<Rightarrow> UploadFailed offset (status r) (statusText r) errorText))"
        using lt m Resolved
        by (subst upload_loop_part_002.simps) (simp add: Let_def split: option.splits)
      then show ?thesis by force
    next
      case True
      from finish_upload_settles[OF settles, of apiKey r "tr @ [Chunk ?req, ?p]"]
      obtain evs res where
        fin: "finish_upload srv apiKey r (tr @ [Chunk ?req, ?p]) =
                Some ((tr @ [Chunk ?req, ?p]) @ evs, res)" and po: "polling_only evs"
        by blast
      have "upload_loop_part_002 C srv f apiKey contentType resumableUrl offset tr =
          Some (tr @ Chunk ?req # (?p # evs), res)"
        using lt m Resolved True fin
        by (subst upload_loop_part_002.simps) (simp add: Let_def)
      moreover have "chunk_requests (?p # evs) = []"
        using polling_only_silent[OF po] by simp
      ultimately show ?thesis by blast
    qed
  qed
qed

lemma upload_loop_part_002_all_chunks:
  assumes C: "0 < C" and S: "0 < file_size f"
    and H: "\<forall>req. chunk_method req = ''POST'' \<and> slice_end req < file_size f \<longrightarrow>
              (\<exists>r. chunk_reply srv req = Resolved r \<and> ok r)"
    and settles: "state_reply srv k \<noteq> Resolved ''PROCESSING''"
  shows "\<exists>evs res. upload_loop_part_002 C srv f apiKey contentType resumableUrl 0 tr =
           Some (tr @ evs, res)
         \<and> chunk_requests evs =
             map (\<lambda>i. command_request contentType resumableUrl (i * C)
                        (min (i * C + C) (file_size f))
                        (min (i * C + C) (file_size f) = file_size f))
               [0..<ceil_div (file_size f) C]"
proof -
  define n where "n = ceil_div (file_size f) C"
  define m where "m = n - 1"
  from ceil_div_bounds[OF C S]
  have lo: "m * C < file_size f" and up: "file_size f \<le> n * C" and n: "0 < n"
    unfolding n_def m_def by simp_all
  have nm: "n = Suc m" using n m_def by simp
  have up': "file_size f \<le> m * C + C" using up nm by (simp add: add.commute)
  have cont: "\<forall>i<m. i * C + C < file_size f \<and>
             (\<exists>r. chunk_reply srv (command_request contentType resumableUrl (i * C)
                      (i * C + C) False) = Resolved r \<and> ok r)"
  proof (intro allI impI)
    fix i assume "i < m"
    then have "Suc i \<le> m" by simp
    then have "Suc i * C \<le> m * C" by (rule mult_le_mono1)
    then have "Suc i * C < file_size f" using lo by (rule le_less_trans)
    then have b: "i * C + C < file_size f" by (simp add: add.commute)
    then have "chunk_method (command_request contentType resumableUrl (i * C) (i * C + C) False)
                 = ''POST'' \<and>
               slice_end (command_request contentType resumableUrl (i * C) (i * C + C) False)
                 < file_size f" by simp
    with H b show "i * C + C < file_size f \<and>
             (\<exists>r. chunk_reply srv (command_request contentType resumableUrl (i * C)
                      (i * C + C) False) = Resolved r \<and> ok r)"
      by blast
  qed
  have mm: "min (m * C) (file_size f) = m * C" using lo by simp
  from upload_loop_part_002_last[OF lo up' settles, of apiKey contentType resumableUrl
         "tr @ command_steps C f contentType resumableUrl m"]
  obtain evs res where
    fin: "upload_loop_part_002 C srv f apiKey contentType resumableUrl (m * C)
            (tr @ command_steps C f contentType resumableUrl m) =
          Some ((tr @ command_steps C f contentType resumableUrl m) @
                Chunk (command_request contentType resumableUrl (m * C) (file_size f) True) # evs,
                res)"
    and silent: "chunk_requests evs = []"
    by blast
  have run: "upload_loop_part_002 C srv f apiKey contentType resumableUrl 0 tr =
      Some (tr @ (command_steps C f contentType resumableUrl m @
                  Chunk (command_request contentType resumableUrl (m * C) (file_size f) True)
                  # evs),
            res)"
    using upload_loop_part_002_iterate[OF cont, of apiKey tr] fin by simp
  have "min (m * C + C) (file_size f) = file_size f" using up' by simp
  then have "chunk_requests (command_steps C f contentType resumableUrl m @
                  Chunk (command_request contentType resumableUrl (m * C) (file_size f) True)
                  # evs) =
      map (\<lambda>i. command_request contentType resumableUrl (i * C) (min (i * C + C) (file_size f))
                  (min (i * C + C) (file_size f) = file_size f))
        [0..<Suc m]"
    using silent by (simp add: chunk_requests_command_steps)
  with run show ?thesis unfolding n_def[symmetric] nm by blast
qed

lemma exact_chunking_command:
  assumes "0 < C" "0 < file_size f"
  shows "exact_chunking C (file_size f)
           (map (\<lambda>i. command_request contentType resumableUrl (i * C)
                      (min (i * C + C) (file_size f))
                      (min (i * C + C) (file_size f) = file_size f))
              [0..<ceil_div (file_size f) C])"
  by (rule exact_chunking_canonical[OF assms]) simp_all

lemmas upload_loop_part_002_induct =
  upload_loop_part_002.raw_induct [rotated 1, consumes 1, case_names step]

lemma upload_loop_part_002_safe_fst:
  assumes "upload_loop_part_002 C srv f apiKey contentType resumableUrl offset tr = Some y"
  shows "\<exists>evs. fst y = tr @ evs \<and> generate_requests evs = [] \<and>
           sorted (progress_values evs) \<and>
           (\<forall>p\<in>set (progress_values evs). percent offset (file_size f) \<le> p \<and> p \<le> 99) \<and>
           (\<forall>r\<in>set (chunk_requests evs). chunk_url r = resumableUrl)"
  using assms
proof (induct rule: upload_loop_part_002_induct)
  case (step loop C srv f apiKey contentType resumableUrl offset tr y)
  let ?S = "file_size f"
  let ?e = "min (offset + C) ?S"
  let ?req = "command_request contentType resumableUrl offset ?e (?e = ?S)"
  let ?tr2 = "tr @ [Chunk ?req, Progress (percent ?e ?S)]"
  show ?case
  proof (cases "offset < ?S")
    case False
    with step(2) show ?thesis by auto
  next
    case True
    note lt = this
    then have oe: "offset \<le> ?e" by simp
    show ?thesis
    proof (cases "chunk_reply srv ?req")
      case Rejected
      with lt step(2) have "fst y = tr @ [Chunk ?req]" by (auto simp: Let_def)
      then show ?thesis by simp
    next
      case (Resolved r)
      show ?thesis
      proof (cases "ok r")
        case False
        with lt Resolved step(2) have "fst y = tr @ [Chunk ?req]"
          by (auto simp: Let_def split: option.splits)
        then show ?thesis by simp
      next
        case True
        note accepted = this
        have "\<exists>evs. fst y = ?tr2 @ evs \<and> generate_requests evs = [] \<and>
                 sorted (progress_values evs) \<and>
                 (\<forall>p\<in>set (progress_values evs). percent ?e ?S \<le> p \<and> p \<le> 99) \<and>
                 (\<forall>r\<in>set (chunk_requests evs). chunk_url r = resumableUrl)"
        proof (cases "?e = ?S")
          case True
          with lt Resolved accepted step(2)
          have "finish_upload srv apiKey r ?tr2 = Some y" by (simp add: Let_def)
          then have "finish_upload srv apiKey r ?tr2 = Some (fst y, snd y)" by simp
          from finish_upload_trace[OF this] obtain evs where
            "fst y = ?tr2 @ evs" "polling_only evs" by blast
          with polling_only_silent[of evs] show ?thesis by auto
        next
          case False
          then have "offset + C < ?S" by (simp add: min_def split: if_splits)
          then have "?e = offset + C" "offset + C \<noteq> ?S" by simp_all
          with lt Resolved accepted step(2)
          have "loop C srv f apiKey contentType resumableUrl ?e ?tr2 = Some y"
            by (simp add: Let_def)
          from step(1)[OF this] show ?thesis .
        qed
        then obtain evs where evs: "fst y = ?tr2 @ evs" "generate_requests evs = []"
          "sorted (progress_values evs)"
          "\<forall>p\<in>set (progress_values evs). percent ?e ?S \<le> p \<and> p \<le> 99"
          "\<forall>r\<in>set (chunk_requests evs). chunk_url r = resumableUrl"
          by blast
        have mono: "percent offset ?S \<le> percent ?e ?S" using oe by (rule percent_mono)
        have rng: "percent ?e ?S \<le> 99" using percent_range by simp
        let ?evs = "[Chunk ?req, Progress (percent ?e ?S)] @ evs"
        have "fst y = tr @ ?evs" using evs(1) by simp
        moreover have "generate_requests ?evs = []" using evs(2) by simp
        moreover have "sorted (progress_values ?evs)" using evs(3,4) by simp
        moreover have "\<forall>p\<in>set (progress_values ?evs). percent offset ?S \<le> p \<and> p \<le> 99"
          using evs(4) mono rng by auto
        moreover have "\<forall>r\<in>set (chunk_requests ?evs). chunk_url r = resumableUrl"
          using evs(5) by simp
        ultimately show ?thesis by blast
      qed
    qed
  qed
qed

section \<open>Whole runs\<close>

lemma upload_loop_part_002_exit:
  "\<not> offset < file_size f \<Longrightarrow>
     upload_loop_part_002 C srv f apiKey contentType resumableUrl offset tr
       = Some (tr, Inl LoopFinished)"
  by (subst upload_loop_part_002.simps) simp

lemma uploadToGemini_no_url:
  assumes "start_reply srv (start_request_of f apiKey (contentType_of f)) = Resolved initRes"
    and "x_goog_upload_url initRes = None \<or> x_goog_upload_url initRes = Some []"
  shows "uploadToGemini C srv f apiKey =
           Some ([Start (start_request_of f apiKey (contentType_of f))],
                 Inl (if ok initRes then NoUploadUrl else InitFailed (statusText initRes)))"
  using assms by (auto simp: uploadToGemini_def Let_def falsy_def or_default_def or_else_def)

lemma uploadToGemini_part_002_no_url:
  assumes "start_reply srv (start_request_of f apiKey (contentType_of f)) = Resolved initRes"
    and "x_goog_upload_url initRes = None \<or> x_goog_upload_url initRes = Some []"
  shows "uploadToGemini_part_002 C srv f apiKey =
           Some ([Start (start_request_of f apiKey (contentType_of f))],
                 Inl (if ok initRes then NoUploadUrl else InitFailed (statusText initRes)))"
  using assms
  by (auto simp: uploadToGemini_part_002_def Let_def falsy_def or_default_def or_else_def)

lemma upload_loop_phase:
  assumes "upload_loop C srv f apiKey contentType resumableUrl offset tr = Some (tr', res)"
  shows "\<exists>evs. tr' = tr @ evs \<and> upload_phase resumableUrl evs"
proof -
  from upload_loop_safe_fst[OF assms] obtain evs where
    evs: "tr' = tr @ evs" "generate_requests evs = []" "sorted (progress_values evs)"
      "\<forall>p\<in>set (progress_values evs). percent offset (file_size f) \<le> p \<and> p \<le> 99"
      "\<forall>r\<in>set (chunk_requests evs). chunk_url r = resumableUrl"
    by auto
  have "0 \<le> percent offset (file_size f)" using percent_range by simp
  with evs(4) have "\<forall>p\<in>set (progress_values evs). 0 \<le> p \<and> p \<le> 99" by force
  with evs show ?thesis unfolding upload_phase_def by blast
qed

lemma upload_loop_part_002_phase:
  assumes "upload_loop_part_002 C srv f apiKey contentType resumableUrl offset tr = Some (tr', res)"
  shows "\<exists>evs. tr' = tr @ evs \<and> upload_phase resumableUrl evs"
proof -
  from upload_loop_part_002_safe_fst[OF assms] obtain evs where
    evs: "tr' = tr @ evs" "generate_requests evs = []" "sorted (progress_values evs)"
      "\<forall>p\<in>set (progress_values evs). percent offset (file_size f) \<le> p \<and> p \<le> 99"
      "\<forall>r\<in>set (chunk_requests evs). chunk_url r = resumableUrl"
    by auto
  have "0 \<le> percent offset (file_size f)" using percent_range by simp
  with evs(4) have "\<forall>p\<in>set (progress_values evs). 0 \<le> p \<and> p \<le> 99" by force
  with evs show ?thesis unfolding upload_phase_def by blast
qed

lemma upload_phase_Nil [simp]: "upload_phase u []"
  by (simp add: upload_phase_def)

lemma uploadToGemini_phase:
  assumes "uploadToGemini C srv f apiKey = Some (tr, res)"
  shows "\<exists>evs u. tr = Start (start_request_of f apiKey (contentType_of f)) # evs \<and>
           upload_phase u evs"
proof (cases "start_reply srv (start_request_of f apiKey (contentType_of f))")
  case Rejected
  with assms show ?thesis by (auto simp: uploadToGemini_def Let_def)
next
  case (Resolved initRes)
  show ?thesis
  proof (cases "\<not> ok initRes \<or> falsy (x_goog_upload_url initRes)")
    case True
    with assms Resolved show ?thesis
      by (auto simp: uploadToGemini_def Let_def split: if_splits)
  next
    case False
    with assms Resolved
    have "upload_loop C srv f apiKey (contentType_of f)
            (with_key (the (x_goog_upload_url initRes)) apiKey) 0
            [Start (start_request_of f apiKey (contentType_of f))] = Some (tr, res)"
      by (simp add: uploadToGemini_def Let_def)
    from upload_loop_phase[OF this] show ?thesis by auto
  qed
qed

lemma uploadToGemini_part_002_phase:
  assumes "uploadToGemini_part_002 C srv f apiKey = Some (tr, res)"
  shows "\<exists>evs u. tr = Start (start_request_of f apiKey (contentType_of f)) # evs \<and>
           upload_phase u evs"
proof (cases "start_reply srv (start_request_of f apiKey (contentType_of f))")
  case Rejected
  with assms show ?thesis by (auto simp: uploadToGemini_part_002_def Let_def)
next
  case (Resolved initRes)
  show ?thesis
  proof (cases "\<not> ok initRes \<or> falsy (x_goog_upload_url initRes)")
    case True
    with assms Resolved show ?thesis
      by (auto simp: uploadToGemini_part_002_def Let_def split: if_splits)
  next
    case False
    with assms Resolved
    have "upload_loop_part_002 C srv f apiKey (contentType_of f)
            (with_key (absolute_url (the (x_goog_upload_url initRes))) apiKey) 0
            [Start (start_request_of f apiKey (contentType_of f))] = Some (tr, res)"
      by (simp add: uploadToGemini_part_002_def Let_def)
    from upload_loop_part_002_phase[OF this] show ?thesis by auto
  qed
qed

lemma transcribeMedia_cases:
  assumes "transcribeMedia C srv env f mimeType isComplex = Some (tr, res)"
  shows "(tr = [] \<and> res = Inl ApiKeyNotFound) \<or>
         (\<exists>e. uploadToGemini C srv f (the env) = Some (tr, Inl e) \<and> res = Inl e) \<or>
         (\<exists>tr0 fileUri. uploadToGemini C srv f (the env) = Some (tr0, Inr fileUri) \<and>
            after_upload srv f mimeType isComplex tr0 fileUri tr res)"
proof (cases "falsy env")
  case True
  with assms show ?thesis by (simp add: transcribeMedia_def)
next
  case False
  show ?thesis
  proof (cases "uploadToGemini C srv f (the env)")
    case None
    with assms False show ?thesis by (simp add: transcribeMedia_def Let_def)
  next
    case (Some y)
    obtain tr0 r where y: "y = (tr0, r)" by (cases y)
    show ?thesis
    proof (cases r)
      case (Inl e)
      with assms False Some y show ?thesis by (auto simp: transcribeMedia_def Let_def)
    next
      case (Inr fileUri)
      with assms False Some y show ?thesis
        by (auto simp: transcribeMedia_def Let_def generate_def after_upload_def
              split: generated.splits)
    qed
  qed
qed

lemma transcribeMedia_part_002_cases:
  assumes "transcribeMedia_part_002 C srv env f mimeType isComplex = Some (tr, res)"
  shows "(tr = [] \<and> res = Inl ApiKeyNotConfigured) \<or>
         (\<exists>e. uploadToGemini_part_002 C srv f (the env) = Some (tr, Inl e) \<and> res = Inl e) \<or>
         (\<exists>tr0 fileUri. uploadToGemini_part_002 C srv f (the env) = Some (tr0, Inr fileUri) \<and>
            after_upload srv f mimeType isComplex tr0 fileUri tr res)"
proof (cases "falsy env")
  case True
  with assms show ?thesis by (simp add: transcribeMedia_part_002_def)
next
  case False
  show ?thesis
  proof (cases "uploadToGemini_part_002 C srv f (the env)")
    case None
    with assms False show ?thesis by (simp add: transcribeMedia_part_002_def Let_def)
  next
    case (Some y)
    obtain tr0 r where y: "y = (tr0, r)" by (cases y)
    show ?thesis
    proof (cases r)
      case (Inl e)
      with assms False Some y show ?thesis
        by (auto simp: transcribeMedia_part_002_def Let_def)
    next
      case (Inr fileUri)
      with assms False Some y show ?thesis
        by (auto simp: transcribeMedia_part_002_def Let_def generate_def after_upload_def
              split: generated.splits)
    qed
  qed
qed

lemma uploadToGemini_started:
  assumes "start_reply srv (start_request_of f apiKey (contentType_of f)) = Resolved initRes"
    and "ok initRes" and "x_goog_upload_url initRes = Some u" and "u \<noteq> []"
  shows "uploadToGemini C srv f apiKey =
           upload_loop C srv f apiKey (contentType_of f) (with_key u apiKey) 0
             [Start (start_request_of f apiKey (contentType_of f))]"
  using assms by (simp add: uploadToGemini_def Let_def falsy_def or_default_def or_else_def)

lemma uploadToGemini_part_002_started:
  assumes "start_reply srv (start_request_of f apiKey (contentType_of f)) = Resolved initRes"
    and "ok initRes" and "x_goog_upload_url initRes = Some u" and "u \<noteq> []"
  shows "uploadToGemini_part_002 C srv f apiKey =
           upload_loop_part_002 C srv f apiKey (contentType_of f)
             (with_key (absolute_url u) apiKey) 0
             [Start (start_request_of f apiKey (contentType_of f))]"
  using assms
  by (simp add: uploadToGemini_part_002_def Let_def falsy_def or_default_def or_else_def)

lemma length_chunk_requests_range_steps [simp]:
  "length (chunk_requests (range_steps C f contentType resumableUrl k)) = k"
  by (simp add: chunk_requests_range_steps)

lemma length_chunk_requests_command_steps [simp]:
  "length (chunk_requests (command_steps C f contentType resumableUrl k)) = k"
  by (simp add: chunk_requests_command_steps)

lemma one_generation_after_upload:
  assumes "upload_phase u evs"
    and "after_upload srv f mimeType isComplex (Start s # evs) fileUri tr res"
  shows "one_generation isComplex tr res"
  using assms
  by (auto simp: after_upload_def one_generation_def upload_phase_def Let_def
        generate_request_of_def or_true_def
        split: generated.splits)

lemma one_generation_upload_error:
  "upload_phase u evs \<Longrightarrow> one_generation c (Start s # evs) (Inl e)"
  by (simp add: one_generation_def upload_phase_def)

lemma poll_state_failed:
  assumes "state_reply srv n = Resolved ''FAILED''"
  shows "poll_state srv fileName apiKey ''PROCESSING'' n tr =
           Some (tr @ [Sleep 2000,
                       GetState (API_HOST @ ''/v1beta/'' @ fileName @ ''?key='' @ apiKey)],
                 Inl ProcessingFailed)"
  using assms by (subst poll_state.simps) (simp add: Let_def)

lemma ceil_div_step:
  assumes "0 < C" and "offset < S"
  shows "Suc (ceil_div (S - min (offset + C) S) C) \<le> ceil_div (S - offset) C"
proof (cases "offset + C < S")
  case False
  then have "min (offset + C) S = S" by simp
  moreover have "ceil_div 0 C = 0" using assms(1) by (simp add: ceil_div_def)
  moreover have "1 \<le> ceil_div (S - offset) C"
  proof -
    have "C \<le> S - offset + C - 1" using assms by simp
    then have "C div C \<le> (S - offset + C - 1) div C" by (rule div_le_mono)
    then show ?thesis using assms(1) by (simp add: ceil_div_def)
  qed
  ultimately show ?thesis by simp
next
  case True
  define d where "d = S - offset - C"
  have S: "S - offset = d + C" "S - min (offset + C) S = d" using True d_def by simp_all
  have "0 < d" using True d_def by simp
  then have e: "d + C + C - 1 = (d + C - 1) + C" using assms(1) by simp
  have "(d + C + C - 1) div C = ((d + C - 1) + C) div C" by (simp only: e)
  also have "\<dots> = (d + C - 1) div C + 1"
  proof (rule div_add_self2)
    show "C \<noteq> 0" using assms(1) by simp
  qed
  finally have "ceil_div (d + C) C = Suc (ceil_div d C)" by (simp only: ceil_div_def Suc_eq_plus1)
  then show ?thesis unfolding S by simp
qed

lemma chunks_in_order_Nil [simp]: "chunks_in_order C S offset []"
  by (simp add: chunks_in_order_def)

lemma ceil_div_0 [simp]: "0 < C \<Longrightarrow> ceil_div 0 C = 0"
  by (simp add: ceil_div_def)

lemma chunks_in_order_single:
  assumes "0 < C" and "offset < S"
    and "slice_start r = offset" and "slice_end r = min (offset + C) S"
  shows "chunks_in_order C S offset [r]"
proof -
  from ceil_div_step[OF assms(1,2)] have "1 \<le> ceil_div (S - offset) C" by simp
  with assms(3,4) show ?thesis by (simp add: chunks_in_order_def)
qed

lemma chunks_in_order_Cons:
  assumes C: "0 < C" and lt: "offset < S"
    and r: "slice_start r = offset" "slice_end r = min (offset + C) S"
    and rest: "chunks_in_order C S (min (offset + C) S) rs"
  shows "chunks_in_order C S offset (r # rs)"
proof (cases rs)
  case Nil
  with chunks_in_order_single[OF C lt r] show ?thesis by simp
next
  case (Cons a as)
  let ?e = "min (offset + C) S"
  have len: "length rs \<le> ceil_div (S - ?e) C"
    and nth: "\<forall>i<length rs. slice_start (rs ! i) = ?e + i * C \<and>
                             slice_end (rs ! i) = min (?e + i * C + C) S"
    using rest by (simp_all add: chunks_in_order_def)
  have "0 < ceil_div (S - ?e) C" using len Cons by simp
  then have "S - ?e \<noteq> 0" using C by (metis ceil_div_0 less_numeral_extra(3))
  then have e: "?e = offset + C" by (simp add: min_def split: if_splits)
  have "Suc (length rs) \<le> ceil_div (S - offset) C"
    using len ceil_div_step[OF C lt] by simp
  moreover have "\<forall>i<length (r # rs). slice_start ((r # rs) ! i) = offset + i * C \<and>
                     slice_end ((r # rs) ! i) = min (offset + i * C + C) S"
  proof (intro allI impI)
    fix i assume i: "i < length (r # rs)"
    show "slice_start ((r # rs) ! i) = offset + i * C \<and>
          slice_end ((r # rs) ! i) = min (offset + i * C + C) S"
    proof (cases i)
      case 0
      with r show ?thesis by simp
    next
      case (Suc j)
      with i have "j < length rs" by simp
      with nth have "slice_start (rs ! j) = ?e + j * C \<and>
                     slice_end (rs ! j) = min (?e + j * C + C) S" by simp
      then show ?thesis unfolding e Suc by (simp add: add.assoc add.commute add.left_commute)
    qed
  qed
  ultimately show ?thesis by (simp add: chunks_in_order_def)
qed

lemma upload_loop_order_fst:
  assumes "upload_loop C srv f apiKey contentType resumableUrl offset tr = Some y"
  shows "0 < C \<longrightarrow> (\<exists>evs. fst y = tr @ evs \<and>
           chunks_in_order C (file_size f) offset (chunk_requests evs))"
  using assms
proof (induct rule: upload_loop_induct)
  case (step loop C srv f apiKey contentType resumableUrl offset tr y)
  let ?S = "file_size f"
  let ?e = "min (offset + C) ?S"
  let ?req = "range_request f contentType resumableUrl offset ?e"
  let ?tr2 = "tr @ [Chunk ?req, Progress (percent ?e ?S)]"
  show ?case
  proof
    assume C: "0 < C"
    show "\<exists>evs. fst y = tr @ evs \<and> chunks_in_order C ?S offset (chunk_requests evs)"
    proof (cases "offset < ?S")
      case False
      with step(2) show ?thesis by auto
    next
      case True
      note lt = this
      have single: "chunks_in_order C ?S offset [?req]"
        by (rule chunks_in_order_single[OF C lt]) simp_all
      show ?thesis
      proof (cases "chunk_reply srv ?req")
        case Rejected
        with lt step(2) have "fst y = tr @ [Chunk ?req]" by (auto simp: Let_def)
        with single show ?thesis by auto
      next
        case (Resolved r)
        show ?thesis
        proof (cases "status r \<noteq> 308 \<and> \<not> ok r")
          case True
          with lt Resolved step(2) have "fst y = tr @ [Chunk ?req]"
            by (auto simp: Let_def split: option.splits)
          with single show ?thesis by auto
        next
          case False
          note accepted = this
          have "\<exists>evs. fst y = ?tr2 @ evs \<and> chunks_in_order C ?S ?e (chunk_requests evs)"
          proof (cases "ok r \<and> status r \<noteq> 308")
            case True
            with lt Resolved accepted step(2)
            have "finish_upload srv apiKey r ?tr2 = Some y" by (simp add: Let_def)
            then have "finish_upload srv apiKey r ?tr2 = Some (fst y, snd y)" by simp
            from finish_upload_trace[OF this] obtain evs where
              "fst y = ?tr2 @ evs" "polling_only evs" by blast
            with polling_only_silent[of evs] show ?thesis by auto
          next
            case False
            with accepted have "status r = 308" by auto
            with lt Resolved step(2)
            have "loop C srv f apiKey contentType resumableUrl ?e ?tr2 = Some y"
              by (simp add: Let_def)
            from step(1)[OF this] C show ?thesis by simp
          qed
          then obtain evs where evs: "fst y = ?tr2 @ evs"
            "chunks_in_order C ?S ?e (chunk_requests evs)" by blast
          let ?evs = "[Chunk ?req, Progress (percent ?e ?S)] @ evs"
          have "fst y = tr @ ?evs" using evs(1) by simp
          moreover have "chunks_in_order C ?S offset (chunk_requests ?evs)"
            using chunks_in_order_Cons[OF C lt _ _ evs(2), of ?req] by simp
          ultimately show ?thesis by blast
        qed
      qed
    qed
  qed
qed

lemma upload_loop_part_002_order_fst:
  assumes "upload_loop_part_002 C srv f apiKey contentType resumableUrl offset tr = Some y"
  shows "0 < C \<longrightarrow> (\<exists>evs. fst y = tr @ evs \<and>
           chunks_in_order C (file_size f) offset (chunk_requests evs))"
  using assms
proof (induct rule: upload_loop_part_002_induct)
  case (step loop C srv f apiKey contentType resumableUrl offset tr y)
  let ?S = "file_size f"
  let ?e = "min (offset + C) ?S"
  let ?req = "command_request contentType resumableUrl offset ?e (?e = ?S)"
  let ?tr2 = "tr @ [Chunk ?req, Progress (percent ?e ?S)]"
  show ?case
  proof
    assume C: "0 < C"
    show "\<exists>evs. fst y = tr @ evs \<and> chunks_in_order C ?S offset (chunk_requests evs)"
    proof (cases "offset < ?S")
      case False
      with step(2) show ?thesis by auto
    next
      case True
      note lt = this
      have single: "chunks_in_order C ?S offset [?req]"
        by (rule chunks_in_order_single[OF C lt]) simp_all
      show ?thesis
      proof (cases "chunk_reply srv ?req")
        case Rejected
        with lt step(2) have "fst y = tr @ [Chunk ?req]" by (auto simp: Let_def)
        with single show ?thesis by auto
      next
        case (Resolved r)
        show ?thesis
        proof (cases "ok r")
          case False
          with lt Resolved step(2) have "fst y = tr @ [Chunk ?req]"
            by (auto simp: Let_def split: option.splits)
          with single show ?thesis by auto
        next
          case True
          note accepted = this
          have "\<exists>evs. fst y = ?tr2 @ evs \<and> chunks_in_order C ?S ?e (chunk_requests evs)"
          proof (cases "?e = ?S")
            case True
            with lt Resolved accepted step(2)
            have "finish_upload srv apiKey r ?tr2 = Some y" by (simp add: Let_def)
            then have "finish_upload srv apiKey r ?tr2 = Some (fst y, snd y)" by simp
            from finish_upload_trace[OF this] obtain evs where
              "fst y = ?tr2 @ evs" "polling_only evs" by blast
            with polling_only_silent[of evs] show ?thesis by auto
          next
            case False
            then have "offset + C < ?S" by (simp add: min_def split: if_splits)
            then have "?e = offset + C" "offset + C \<noteq> ?S" by simp_all
            with lt Resolved accepted step(2)
            have "loop C srv f apiKey contentType resumableUrl ?e ?tr2 = Some y"
              by (simp add: Let_def)
            from step(1)[OF this] C show ?thesis by simp
          qed
          then obtain evs where evs: "fst y = ?tr2 @ evs"
            "chunks_in_order C ?S ?e (chunk_requests evs)" by blast
          let ?evs = "[Chunk ?req, Progress (percent ?e ?S)] @ evs"
          have "fst y = tr @ ?evs" using evs(1) by simp
          moreover have "chunks_in_order C ?S offset (chunk_requests ?evs)"
            using chunks_in_order_Cons[OF C lt _ _ evs(2), of ?req] by simp
          ultimately show ?thesis by blast
        qed
      qed
    qed
  qed
qed

lemma upload_chunks_in_order:
  assumes "0 < C"
  shows "uploadToGemini C srv f apiKey = Some (tr, res) \<Longrightarrow>
           chunks_in_order C (file_size f) 0 (chunk_requests tr)"
    and "uploadToGemini_part_002 C srv f apiKey = Some (tr, res) \<Longrightarrow>
           chunks_in_order C (file_size f) 0 (chunk_requests tr)"
proof -
  let ?init = "[Start (start_request_of f apiKey (contentType_of f))]"
  {
    assume run: "uploadToGemini C srv f apiKey = Some (tr, res)"
    show "chunks_in_order C (file_size f) 0 (chunk_requests tr)"
    proof (cases "session_started srv f apiKey")
      case False
      with run have "tr = ?init"
        by (auto simp: uploadToGemini_def session_started_def Let_def
              split: settled.splits if_splits)
      then show ?thesis by simp
    next
      case True
      then obtain initRes where "start_reply srv (start_request_of f apiKey (contentType_of f))
                     = Resolved initRes" "ok initRes"
                     "\<not> falsy (x_goog_upload_url initRes)"
        unfolding session_started_def by blast
      with run have "upload_loop C srv f apiKey (contentType_of f)
          (with_key (the (x_goog_upload_url initRes)) apiKey) 0 ?init = Some (tr, res)"
        by (simp add: uploadToGemini_def Let_def)
      from upload_loop_order_fst[OF this] assms show ?thesis by auto
    qed
  }
  {
    assume run: "uploadToGemini_part_002 C srv f apiKey = Some (tr, res)"
    show "chunks_in_order C (file_size f) 0 (chunk_requests tr)"
    proof (cases "session_started srv f apiKey")
      case False
      with run have "tr = ?init"
        by (auto simp: uploadToGemini_part_002_def session_started_def Let_def
              split: settled.splits if_splits)
      then show ?thesis by simp
    next
      case True
      then obtain initRes where "start_reply srv (start_request_of f apiKey (contentType_of f))
                     = Resolved initRes" "ok initRes"
                     "\<not> falsy (x_goog_upload_url initRes)"
        unfolding session_started_def by blast
      with run have "upload_loop_part_002 C srv f apiKey (contentType_of f)
          (with_key (absolute_url (the (x_goog_upload_url initRes))) apiKey) 0 ?init
          = Some (tr, res)"
        by (simp add: uploadToGemini_part_002_def Let_def)
      from upload_loop_part_002_order_fst[OF this] assms show ?thesis by auto
    qed
  }
qed

lemma session_startedE:
  assumes "session_started srv f apiKey"
  obtains initRes u where
    "start_reply srv (start_request_of f apiKey (contentType_of f)) = Resolved initRes"
    "ok initRes" "x_goog_upload_url initRes = Some u" "u \<noteq> []"
  using assms unfolding session_started_def falsy_def by (auto split: option.splits)

lemma str_includes_suffix: "str_includes ys sub \<Longrightarrow> str_includes (xs @ ys) sub"
  by (induction xs) simp_all

lemma str_includes_prefix: "str_includes (sub @ rest) sub"
proof (cases "sub @ rest")
  case Nil
  then show ?thesis by simp
next
  case (Cons c cs)
  have "take (length sub) (sub @ rest) = sub" by simp
  then have "startsWith (c # cs) sub" unfolding startsWith_def Cons .
  then show ?thesis unfolding Cons by simp
qed

lemma with_key_has_key: "str_includes (with_key resumableUrl apiKey) ''key=''"
proof (cases "str_includes resumableUrl ''key=''")
  case True
  then show ?thesis by (simp add: with_key_def)
next
  case False
  have "str_includes (''key='' @ apiKey) ''key=''" by (rule str_includes_prefix)
  then have "str_includes ((resumableUrl @ (if str_includes resumableUrl ''?'' then ''&'' else ''?''))
               @ (''key='' @ apiKey)) ''key=''"
    by (rule str_includes_suffix)
  with False show ?thesis by (simp add: with_key_def)
qed

lemma absolute_url_relative:
  "absolute_url (CHR ''/'' # path) = ''https://generativelanguage.googleapis.com/'' @ path"
  by (simp add: absolute_url_def startsWith_def API_HOST_def)

lemma uploadToGemini_part_002_target:
  assumes "uploadToGemini_part_002 C srv f apiKey = Some (tr, res)"
    and "start_reply srv (start_request_of f apiKey (contentType_of f)) = Resolved initRes"
    and "x_goog_upload_url initRes = Some u"
  shows "\<forall>r\<in>set (chunk_requests tr). chunk_url r = with_key (absolute_url u) apiKey"
proof (cases "\<not> ok initRes \<or> falsy (x_goog_upload_url initRes)")
  case True
  with assms have "tr = [Start (start_request_of f apiKey (contentType_of f))]"
    by (auto simp: uploadToGemini_part_002_def Let_def split: if_splits)
  then show ?thesis by simp
next
  case False
  with assms
  have "upload_loop_part_002 C srv f apiKey (contentType_of f)
          (with_key (absolute_url u) apiKey) 0
          [Start (start_request_of f apiKey (contentType_of f))] = Some (tr, res)"
    by (simp add: uploadToGemini_part_002_def Let_def)
  from upload_loop_part_002_phase[OF this] show ?thesis by (auto simp: upload_phase_def)
qed

lemma uploadToGemini_target:
  assumes "uploadToGemini C srv f apiKey = Some (tr, res)"
    and "start_reply srv (start_request_of f apiKey (contentType_of f)) = Resolved initRes"
    and "x_goog_upload_url initRes = Some u"
  shows "\<forall>r\<in>set (chunk_requests tr). chunk_url r = with_key u apiKey"
proof (cases "\<not> ok initRes \<or> falsy (x_goog_upload_url initRes)")
  case True
  with assms have "tr = [Start (start_request_of f apiKey (contentType_of f))]"
    by (auto simp: uploadToGemini_def Let_def split: if_splits)
  then show ?thesis by simp
next
  case False
  with assms
  have "upload_loop C srv f apiKey (contentType_of f) (with_key u apiKey) 0
          [Start (start_request_of f apiKey (contentType_of f))] = Some (tr, res)"
    by (simp add: uploadToGemini_def Let_def)
  from upload_loop_phase[OF this] show ?thesis by (auto simp: upload_phase_def)
qed

section \<open>Runs observed before they settle: adequacy and the shape of the effects\<close>











lemma accepted_steps_simps [simp]:
  "accepted_steps S [] = []"
  "accepted_steps S (r # rs) = Chunk r # Progress (percent (slice_end r) S) # accepted_steps S rs"
  by (simp_all add: accepted_steps_def)

lemma progress_values_accepted_steps [simp]:
  "progress_values (accepted_steps S rs) = map (\<lambda>r. percent (slice_end r) S) rs"
  by (induction rs) simp_all

lemma chunk_requests_accepted_steps [simp]:
  "chunk_requests (accepted_steps S rs) = rs"
  by (induction rs) simp_all

lemma generate_requests_accepted_steps [simp]:
  "generate_requests (accepted_steps S rs) = []"
  by (induction rs) simp_all

















section \<open>The model at work: a 20 MiB file in 8 MiB chunks\<close>

lemmas demo_defs = demo_file_def demo_response_def by_protocol_def demo_server_def demo_url_def

lemmas run_defs = transcribeMedia_def transcribeMedia_part_002_def
  uploadToGemini_def uploadToGemini_part_002_def
  finish_upload_def generate_def generate_request_of_def start_request_of_def
  range_request_def command_request_def with_key_def absolute_url_def
  contentType_of_def safeMimeType_def or_true_def
  or_else_def falsy_def or_default_def ok_def Let_def startsWith_def API_HOST_def
  UPLOAD_CHUNK_SIZE_def


lemma percent_20MiB:
  "percent 8388608 20971520 = 40" "percent 16777216 20971520 = 80"
  "percent 20971520 20971520 = 99"
  by (simp_all add: percent_def) code_simp+


lemma demo_run:
  "map_option (\<lambda>(tr, res). (map (\<lambda>r. (slice_start r, slice_end r)) (chunk_requests tr),
        progress_values tr, res))
     (transcribeMedia UPLOAD_CHUNK_SIZE
        (demo_server (Some demo_url) (by_protocol 20971520) ''PROCESSING'' (Some ''transcript''))
        (Some ''K'') (demo_file 20971520) [] None) =
   Some ([(0, 8388608), (8388608, 16777216), (16777216, 20971520)], [40, 80, 99, 100],
         Inr ''transcript'')"
  by (simp add: run_defs demo_defs upload_loop.simps poll_state.simps percent_20MiB)

lemma demo_run_part_002:
  "map_option (\<lambda>(tr, res). (map (\<lambda>r. (slice_start r, slice_end r)) (chunk_requests tr),
        progress_values tr, res))
     (transcribeMedia_part_002 UPLOAD_CHUNK_SIZE
        (demo_server (Some demo_url) (by_protocol 20971520) ''PROCESSING'' (Some ''transcript''))
        (Some ''K'') (demo_file 20971520) [] None) =
   Some ([(0, 8388608), (8388608, 16777216), (16777216, 20971520)], [40, 80, 99, 100],
         Inr ''transcript'')"
  by (simp add: run_defs demo_defs upload_loop_part_002.simps poll_state.simps percent_20MiB)

lemma demo_generation:
  "map_option (\<lambda>(tr, res). (map (\<lambda>g. (model g, thinkingBudget g)) (generate_requests tr), res))
     (transcribeMedia UPLOAD_CHUNK_SIZE
        (demo_server (Some demo_url) (by_protocol 1) ''ACTIVE'' (Some ''transcript''))
        (Some ''K'') (demo_file 1) [] c) =
   Some ([if or_true c then (GEMINI_PRO_MODEL, Some 32768) else (GEMINI_FLASH_MODEL, None)],
         Inr ''transcript'')"
  "map_option (\<lambda>(tr, res). (map (\<lambda>g. (model g, thinkingBudget g)) (generate_requests tr), res))
     (transcribeMedia_part_002 UPLOAD_CHUNK_SIZE
        (demo_server (Some demo_url) (by_protocol 1) ''ACTIVE'' (Some ''transcript''))
        (Some ''K'') (demo_file 1) [] c) =
   Some ([if or_true c then (GEMINI_PRO_MODEL, Some 32768) else (GEMINI_FLASH_MODEL, None)],
         Inr ''transcript'')"
  by (simp_all add: run_defs demo_defs upload_loop.simps upload_loop_part_002.simps
        poll_state.simps)

section \<open>The claims\<close>

text \<open>
  C1. For a file of size \<open>S > 0\<close> and a chunk size \<open>C > 0\<close>, whatever the server answers, the
  chunk requests of a run of \<open>uploadToGemini\<close> that settles are the first ones of the chunking
  of the file: the \<open>i\<close>-th carries the bytes from \<open>i * C\<close> up to \<open>min (i * C + C) S\<close>, and there
  are at most \<open>\<lceil>S/C\<rceil>\<close> of them, one per iteration of the loop. When the session starts, every
  chunk short of the end of the file is answered with the protocol's ``continue'' (308 to the
  \<open>PUT\<close> of src/services/geminiService.ts, a 2xx to the \<open>POST\<close> of src/unnamed/part_002) and the
  state requests do not report \<open>PROCESSING\<close> for ever, the run settles and has sent exactly
  \<open>\<lceil>S/C\<rceil>\<close> chunk requests: they start at offset 0, each begins where the one before ends, every
  one but the last has length exactly \<open>C\<close>, the last is not empty and not longer than \<open>C\<close>, and
  the lengths add up to \<open>S\<close>.
\<close>

theorem upload_sends_exact_chunks:
  assumes "0 < C" and "0 < file_size f"
  shows "(\<forall>tr res. uploadToGemini C srv f apiKey = Some (tr, res) \<longrightarrow>
            chunks_in_order C (file_size f) 0 (chunk_requests tr)) \<and>
         (\<forall>tr res. uploadToGemini_part_002 C srv f apiKey = Some (tr, res) \<longrightarrow>
            chunks_in_order C (file_size f) 0 (chunk_requests tr)) \<and>
         (session_started srv f apiKey \<and> (\<exists>k. state_reply srv k \<noteq> Resolved ''PROCESSING'') \<longrightarrow>
            ((\<forall>req. chunk_method req = ''PUT'' \<and> slice_end req < file_size f \<longrightarrow>
                (\<exists>r. chunk_reply srv req = Resolved r \<and> status r = 308)) \<longrightarrow>
             (\<exists>tr res. uploadToGemini C srv f apiKey = Some (tr, res) \<and>
                exact_chunking C (file_size f) (chunk_requests tr))) \<and>
            ((\<forall>req. chunk_method req = ''POST'' \<and> slice_end req < file_size f \<longrightarrow>
                (\<exists>r. chunk_reply srv req = Resolved r \<and> ok r)) \<longrightarrow>
             (\<exists>tr res. uploadToGemini_part_002 C srv f apiKey = Some (tr, res) \<and>
                exact_chunking C (file_size f) (chunk_requests tr))))"
proof (intro conjI allI impI)
  fix tr res assume "uploadToGemini C srv f apiKey = Some (tr, res)"
  then show "chunks_in_order C (file_size f) 0 (chunk_requests tr)"
    by (rule upload_chunks_in_order(1)[OF assms(1)])
next
  fix tr res assume "uploadToGemini_part_002 C srv f apiKey = Some (tr, res)"
  then show "chunks_in_order C (file_size f) 0 (chunk_requests tr)"
    by (rule upload_chunks_in_order(2)[OF assms(1)])
next
  assume env: "session_started srv f apiKey \<and> (\<exists>k. state_reply srv k \<noteq> Resolved ''PROCESSING'')"
    and H: "\<forall>req. chunk_method req = ''PUT'' \<and> slice_end req < file_size f \<longrightarrow>
              (\<exists>r. chunk_reply srv req = Resolved r \<and> status r = 308)"
  from env obtain k where k: "state_reply srv k \<noteq> Resolved ''PROCESSING''" by blast
  from env obtain initRes u where
    start: "start_reply srv (start_request_of f apiKey (contentType_of f)) = Resolved initRes"
      "ok initRes" "x_goog_upload_url initRes = Some u" "u \<noteq> []"
    by (blast elim: session_startedE)
  from upload_loop_all_chunks[OF assms H k, of apiKey "contentType_of f" "with_key u apiKey"
         "[Start (start_request_of f apiKey (contentType_of f))]"]
  obtain evs res where
    "upload_loop C srv f apiKey (contentType_of f) (with_key u apiKey) 0
       [Start (start_request_of f apiKey (contentType_of f))] =
     Some ([Start (start_request_of f apiKey (contentType_of f))] @ evs, res)"
    and "chunk_requests evs =
       map (\<lambda>i. range_request f (contentType_of f) (with_key u apiKey) (i * C)
                  (min (i * C + C) (file_size f)))
         [0..<ceil_div (file_size f) C]"
    by blast
  then show "\<exists>tr res. uploadToGemini C srv f apiKey = Some (tr, res) \<and>
            exact_chunking C (file_size f) (chunk_requests tr)"
    using exact_chunking_range[OF assms, of "contentType_of f" "with_key u apiKey"]
    by (simp add: uploadToGemini_started[OF start])
next
  assume env: "session_started srv f apiKey \<and> (\<exists>k. state_reply srv k \<noteq> Resolved ''PROCESSING'')"
    and H: "\<forall>req. chunk_method req = ''POST'' \<and> slice_end req < file_size f \<longrightarrow>
              (\<exists>r. chunk_reply srv req = Resolved r \<and> ok r)"
  from env obtain k where k: "state_reply srv k \<noteq> Resolved ''PROCESSING''" by blast
  from env obtain initRes u where
    start: "start_reply srv (start_request_of f apiKey (contentType_of f)) = Resolved initRes"
      "ok initRes" "x_goog_upload_url initRes = Some u" "u \<noteq> []"
    by (blast elim: session_startedE)
  from upload_loop_part_002_all_chunks[OF assms H k, of apiKey "contentType_of f"
         "with_key (absolute_url u) apiKey"
         "[Start (start_request_of f apiKey (contentType_of f))]"]
  obtain evs res where
    "upload_loop_part_002 C srv f apiKey (contentType_of f) (with_key (absolute_url u) apiKey) 0
       [Start (start_request_of f apiKey (contentType_of f))] =
     Some ([Start (start_request_of f apiKey (contentType_of f))] @ evs, res)"
    and "chunk_requests evs =
       map (\<lambda>i. command_request (contentType_of f) (with_key (absolute_url u) apiKey) (i * C)
                  (min (i * C + C) (file_size f)) (min (i * C + C) (file_size f) = file_size f))
         [0..<ceil_div (file_size f) C]"
    by blast
  then show "\<exists>tr res. uploadToGemini_part_002 C srv f apiKey = Some (tr, res) \<and>
            exact_chunking C (file_size f) (chunk_requests tr)"
    using exact_chunking_command[OF assms, of "contentType_of f"
            "with_key (absolute_url u) apiKey"]
    by (simp add: uploadToGemini_part_002_started[OF start])
qed

theorem upload_sends_exact_chunks_witness:
  "(\<exists>tr res.
      uploadToGemini UPLOAD_CHUNK_SIZE
        (demo_server (Some demo_url) (by_protocol 20971520) ''PROCESSING'' (Some ''transcript''))
        (demo_file 20971520) ''K'' = Some (tr, res) \<and>
      exact_chunking UPLOAD_CHUNK_SIZE 20971520 (chunk_requests tr) \<and>
      chunks_in_order UPLOAD_CHUNK_SIZE 20971520 0 (chunk_requests tr)) \<and>
   (\<exists>tr res.
      uploadToGemini_part_002 UPLOAD_CHUNK_SIZE
        (demo_server (Some demo_url) (by_protocol 20971520) ''PROCESSING'' (Some ''transcript''))
        (demo_file 20971520) ''K'' = Some (tr, res) \<and>
      exact_chunking UPLOAD_CHUNK_SIZE 20971520 (chunk_requests tr) \<and>
      chunks_in_order UPLOAD_CHUNK_SIZE 20971520 0 (chunk_requests tr)) \<and>
   ceil_div 20971520 UPLOAD_CHUNK_SIZE = 3"
proof -
  let ?srv = "demo_server (Some demo_url) (by_protocol 20971520) ''PROCESSING''
                (Some ''transcript'')"
  have size: "0 < UPLOAD_CHUNK_SIZE" "0 < file_size (demo_file 20971520)"
    "file_size (demo_file 20971520) = 20971520"
    by (simp_all add: UPLOAD_CHUNK_SIZE_def demo_defs)
  have env: "session_started ?srv (demo_file 20971520) ''K'' \<and>
      (\<exists>k. state_reply ?srv k \<noteq> Resolved ''PROCESSING'')"
    by (auto simp: session_started_def demo_defs ok_def falsy_def intro: exI[of _ 2])
  have put: "\<forall>req. chunk_method req = ''PUT'' \<and> slice_end req < file_size (demo_file 20971520) \<longrightarrow>
      (\<exists>r. chunk_reply ?srv req = Resolved r \<and> status r = 308)"
    by (simp add: demo_defs)
  have post: "\<forall>req. chunk_method req = ''POST'' \<and> slice_end req < file_size (demo_file 20971520) \<longrightarrow>
      (\<exists>r. chunk_reply ?srv req = Resolved r \<and> ok r)"
    by (simp add: demo_defs ok_def)
  have three: "ceil_div 20971520 UPLOAD_CHUNK_SIZE = 3"
    by (simp add: ceil_div_def UPLOAD_CHUNK_SIZE_def)
  from upload_sends_exact_chunks[OF size(1,2), of ?srv "''K''"] env put post three
  show ?thesis unfolding size(3) by blast
qed




text \<open>
  C3. The upload URL of the start response is \<open>/upload/v1beta/files?upload_id=abc\<close>, a
  relative one. src/services/geminiService.ts appends the key and sends its chunk to that
  relative target; src/unnamed/part_002 first prepends the API host (lemmas
  \<open>absolute_url_relative\<close>, \<open>with_key_has_key\<close>, \<open>uploadToGemini_part_002_target\<close>).
\<close>

theorem relative_upload_url_stays_relative:
  "map_option (map chunk_url \<circ> chunk_requests \<circ> fst)
     (uploadToGemini UPLOAD_CHUNK_SIZE
        (demo_server (Some ''/upload/v1beta/files?upload_id=abc'') (by_protocol 1) ''ACTIVE''
           (Some ''transcript''))
        (demo_file 1) ''K'') = Some [''/upload/v1beta/files?upload_id=abc&key=K''] \<and>
   map_option (map chunk_url \<circ> chunk_requests \<circ> fst)
     (uploadToGemini_part_002 UPLOAD_CHUNK_SIZE
        (demo_server (Some ''/upload/v1beta/files?upload_id=abc'') (by_protocol 1) ''ACTIVE''
           (Some ''transcript''))
        (demo_file 1) ''K'') =
     Some [''https://generativelanguage.googleapis.com/upload/v1beta/files?upload_id=abc&key=K'']"
  by (simp add: run_defs demo_defs upload_loop.simps upload_loop_part_002.simps poll_state.simps)

text \<open>
  C4. The final chunk's response already reports the state \<open>FAILED\<close>. The polling loop is
  entered only for \<open>PROCESSING\<close> and looks for \<open>FAILED\<close> only in the answers to its own state
  requests (lemma \<open>poll_state_failed\<close>), so here the upload returns the file URI, and
  \<open>transcribeMedia\<close> sends one generation request and returns its text.
\<close>

theorem failed_state_of_final_response_is_ignored:
  "map_option snd
     (transcribeMedia UPLOAD_CHUNK_SIZE
        (demo_server (Some demo_url) (by_protocol 1) ''FAILED'' (Some ''transcript''))
        (Some ''K'') (demo_file 1) [] None) = Some (Inr ''transcript'') \<and>
   map_option (length \<circ> generate_requests \<circ> fst)
     (transcribeMedia UPLOAD_CHUNK_SIZE
        (demo_server (Some demo_url) (by_protocol 1) ''FAILED'' (Some ''transcript''))
        (Some ''K'') (demo_file 1) [] None) = Some 1 \<and>
   map_option snd
     (transcribeMedia_part_002 UPLOAD_CHUNK_SIZE
        (demo_server (Some demo_url) (by_protocol 1) ''FAILED'' (Some ''transcript''))
        (Some ''K'') (demo_file 1) [] None) = Some (Inr ''transcript'') \<and>
   map_option (length \<circ> generate_requests \<circ> fst)
     (transcribeMedia_part_002 UPLOAD_CHUNK_SIZE
        (demo_server (Some demo_url) (by_protocol 1) ''FAILED'' (Some ''transcript''))
        (Some ''K'') (demo_file 1) [] None) = Some 1"
  by (simp add: run_defs demo_defs upload_loop.simps upload_loop_part_002.simps poll_state.simps)

text \<open>
  C5. In a run of \<open>transcribeMedia\<close> whose generation request is answered with a text that is
  undefined or empty, the value returned is the literal \<open>No transcription generated.\<close>. Once
  \<open>uploadToGemini\<close> has returned a file URI the run settles and has sent that one request, for
  the file of that URI. No run returns the empty string.
\<close>

theorem empty_generation_gives_fallback:
  "(\<forall>tr res g. transcribeMedia C srv env f mimeType isComplex = Some (tr, res) \<and>
        g \<in> set (generate_requests tr) \<and>
        (generate_reply srv g = Generated None \<or> generate_reply srv g = Generated (Some [])) \<longrightarrow>
        res = Inr ''No transcription generated.'') \<and>
   (\<forall>tr res g. transcribeMedia_part_002 C srv env f mimeType isComplex = Some (tr, res) \<and>
        g \<in> set (generate_requests tr) \<and>
        (generate_reply srv g = Generated None \<or> generate_reply srv g = Generated (Some [])) \<longrightarrow>
        res = Inr ''No transcription generated.'') \<and>
   (\<forall>tr0 fileUri. \<not> falsy env \<and> uploadToGemini C srv f (the env) = Some (tr0, Inr fileUri) \<longrightarrow>
        (\<exists>tr res g. transcribeMedia C srv env f mimeType isComplex = Some (tr, res) \<and>
           generate_requests tr = [g] \<and> fileData_fileUri g = fileUri)) \<and>
   (\<forall>tr0 fileUri. \<not> falsy env \<and>
        uploadToGemini_part_002 C srv f (the env) = Some (tr0, Inr fileUri) \<longrightarrow>
        (\<exists>tr res g. transcribeMedia_part_002 C srv env f mimeType isComplex = Some (tr, res) \<and>
           generate_requests tr = [g] \<and> fileData_fileUri g = fileUri)) \<and>
   (\<forall>tr text. transcribeMedia C srv env f mimeType isComplex = Some (tr, Inr text) \<longrightarrow>
        text \<noteq> []) \<and>
   (\<forall>tr text. transcribeMedia_part_002 C srv env f mimeType isComplex = Some (tr, Inr text) \<longrightarrow>
        text \<noteq> [])"
proof -
  have after: "generate_requests tr0 = [] \<Longrightarrow>
      after_upload srv f mimeType isComplex tr0 fileUri tr res \<Longrightarrow>
      (\<forall>g. g \<in> set (generate_requests tr) \<and>
           (generate_reply srv g = Generated None \<or> generate_reply srv g = Generated (Some []))
           \<longrightarrow> res = Inr ''No transcription generated.'') \<and>
      (\<forall>text. res = Inr text \<longrightarrow> text \<noteq> [])" for tr0 fileUri tr res
    by (auto simp: after_upload_def Let_def or_default_def or_else_def falsy_def
          split: generated.splits option.splits if_splits)
  have silentB: "generate_requests tr0 = []"
    if "uploadToGemini C srv f (the env) = Some (tr0, r)" for tr0 r
    using uploadToGemini_phase[OF that] by (auto simp: upload_phase_def)
  have silentA: "generate_requests tr0 = []"
    if "uploadToGemini_part_002 C srv f (the env) = Some (tr0, r)" for tr0 r
    using uploadToGemini_part_002_phase[OF that] by (auto simp: upload_phase_def)
  have B: "(\<forall>g. g \<in> set (generate_requests tr) \<and>
           (generate_reply srv g = Generated None \<or> generate_reply srv g = Generated (Some []))
           \<longrightarrow> res = Inr ''No transcription generated.'') \<and>
      (\<forall>text. res = Inr text \<longrightarrow> text \<noteq> [])"
    if run: "transcribeMedia C srv env f mimeType isComplex = Some (tr, res)" for tr res
    using transcribeMedia_cases[OF run]
  proof (elim disjE exE conjE)
    assume "tr = []" "res = Inl ApiKeyNotFound"
    then show ?thesis by simp
  next
    fix e assume "uploadToGemini C srv f (the env) = Some (tr, Inl e)" "res = Inl e"
    with silentB show ?thesis by auto
  next
    fix tr0 fileUri
    assume "uploadToGemini C srv f (the env) = Some (tr0, Inr fileUri)"
      and "after_upload srv f mimeType isComplex tr0 fileUri tr res"
    with silentB after show ?thesis by blast
  qed
  have A: "(\<forall>g. g \<in> set (generate_requests tr) \<and>
           (generate_reply srv g = Generated None \<or> generate_reply srv g = Generated (Some []))
           \<longrightarrow> res = Inr ''No transcription generated.'') \<and>
      (\<forall>text. res = Inr text \<longrightarrow> text \<noteq> [])"
    if run: "transcribeMedia_part_002 C srv env f mimeType isComplex = Some (tr, res)" for tr res
    using transcribeMedia_part_002_cases[OF run]
  proof (elim disjE exE conjE)
    assume "tr = []" "res = Inl ApiKeyNotConfigured"
    then show ?thesis by simp
  next
    fix e assume "uploadToGemini_part_002 C srv f (the env) = Some (tr, Inl e)" "res = Inl e"
    with silentA show ?thesis by auto
  next
    fix tr0 fileUri
    assume "uploadToGemini_part_002 C srv f (the env) = Some (tr0, Inr fileUri)"
      and "after_upload srv f mimeType isComplex tr0 fileUri tr res"
    with silentA after show ?thesis by blast
  qed
  have settleB: "\<exists>tr res g. transcribeMedia C srv env f mimeType isComplex = Some (tr, res) \<and>
           generate_requests tr = [g] \<and> fileData_fileUri g = fileUri"
    if "\<not> falsy env" "uploadToGemini C srv f (the env) = Some (tr0, Inr fileUri)"
    for tr0 fileUri
    using that silentB[OF that(2)]
    by (cases "generate_reply srv
                 (generate_request_of (safeMimeType mimeType f) fileUri (or_true isComplex))")
       (simp_all add: transcribeMedia_def Let_def generate_def generate_request_of_def)
  have settleA: "\<exists>tr res g.
           transcribeMedia_part_002 C srv env f mimeType isComplex = Some (tr, res) \<and>
           generate_requests tr = [g] \<and> fileData_fileUri g = fileUri"
    if "\<not> falsy env" "uploadToGemini_part_002 C srv f (the env) = Some (tr0, Inr fileUri)"
    for tr0 fileUri
    using that silentA[OF that(2)]
    by (cases "generate_reply srv
                 (generate_request_of (safeMimeType mimeType f) fileUri (or_true isComplex))")
       (simp_all add: transcribeMedia_part_002_def Let_def generate_def generate_request_of_def)
  show ?thesis
    apply (intro conjI allI impI)
    subgoal for tr res g using B[of tr res] by blast
    subgoal for tr res g using A[of tr res] by blast
    subgoal for tr0 fileUri using settleB[of tr0 fileUri] by blast
    subgoal for tr0 fileUri using settleA[of tr0 fileUri] by blast
    subgoal for tr t using B[of tr "Inr t"] by blast
    subgoal for tr t using A[of tr "Inr t"] by blast
    done
qed

theorem empty_generation_gives_fallback_witness:
  "map_option snd
     (transcribeMedia UPLOAD_CHUNK_SIZE
        (demo_server (Some demo_url) (by_protocol 1) ''ACTIVE'' (Some []))
        (Some ''K'') (demo_file 1) [] None) = Some (Inr ''No transcription generated.'') \<and>
   map_option snd
     (transcribeMedia_part_002 UPLOAD_CHUNK_SIZE
        (demo_server (Some demo_url) (by_protocol 1) ''ACTIVE'' None)
        (Some ''K'') (demo_file 1) [] None) = Some (Inr ''No transcription generated.'')"
proof -
  let ?B = "demo_server (Some demo_url) (by_protocol 1) ''ACTIVE'' (Some [])"
  let ?A = "demo_server (Some demo_url) (by_protocol 1) ''ACTIVE'' None"
  have key: "\<not> falsy (Some ''K'')" by (simp add: falsy_def)
  obtain tr0 where upB: "uploadToGemini UPLOAD_CHUNK_SIZE ?B (demo_file 1) (the (Some ''K'')) =
      Some (tr0, Inr ''https://example.org/files/abc'')"
    by (simp add: run_defs demo_defs upload_loop.simps poll_state.simps)
  obtain tr0' where upA:
    "uploadToGemini_part_002 UPLOAD_CHUNK_SIZE ?A (demo_file 1) (the (Some ''K'')) =
      Some (tr0', Inr ''https://example.org/files/abc'')"
    by (simp add: run_defs demo_defs upload_loop_part_002.simps poll_state.simps)
  have gB: "generate_reply ?B g = Generated (Some [])" for g by (simp add: demo_defs)
  have gA: "generate_reply ?A g = Generated None" for g by (simp add: demo_defs)
  note B = empty_generation_gives_fallback
             [of UPLOAD_CHUNK_SIZE ?B "Some ''K''" "demo_file 1" "[]" None]
  note A = empty_generation_gives_fallback
             [of UPLOAD_CHUNK_SIZE ?A "Some ''K''" "demo_file 1" "[]" None]
  from B key upB obtain tr res g where
    runB: "transcribeMedia UPLOAD_CHUNK_SIZE ?B (Some ''K'') (demo_file 1) [] None = Some (tr, res)"
    and "generate_requests tr = [g]"
    by blast
  then have "g \<in> set (generate_requests tr)" by simp
  with B runB gB[of g] have "res = Inr ''No transcription generated.''" by blast
  with runB have 1: "map_option snd
     (transcribeMedia UPLOAD_CHUNK_SIZE ?B (Some ''K'') (demo_file 1) [] None)
       = Some (Inr ''No transcription generated.'')"
    by simp
  from A key upA obtain tr' res' g' where
    runA: "transcribeMedia_part_002 UPLOAD_CHUNK_SIZE ?A (Some ''K'') (demo_file 1) [] None
             = Some (tr', res')"
    and "generate_requests tr' = [g']"
    by blast
  then have "g' \<in> set (generate_requests tr')" by simp
  with A runA gA[of g'] have "res' = Inr ''No transcription generated.''" by blast
  with runA have 2: "map_option snd
     (transcribeMedia_part_002 UPLOAD_CHUNK_SIZE ?A (Some ''K'') (demo_file 1) [] None)
       = Some (Inr ''No transcription generated.'')"
    by simp
  from 1 2 show ?thesis by simp
qed

text \<open>
  C6. If \<open>process.env.API_KEY\<close> is absent (or empty), \<open>transcribeMedia\<close> fails with the
  configuration error of its file and the run has no effect at all: no request is sent, not even
  the one that starts the upload session.
\<close>

theorem missing_credential_no_network_call:
  "transcribeMedia C srv None f mimeType isComplex = Some ([], Inl ApiKeyNotFound) \<and>
   transcribeMedia C srv (Some []) f mimeType isComplex = Some ([], Inl ApiKeyNotFound) \<and>
   transcribeMedia_part_002 C srv None f mimeType isComplex = Some ([], Inl ApiKeyNotConfigured) \<and>
   transcribeMedia_part_002 C srv (Some []) f mimeType isComplex
     = Some ([], Inl ApiKeyNotConfigured)"
  by (simp add: transcribeMedia_def transcribeMedia_part_002_def falsy_def)

text \<open>
  C7. If the start response carries no \<open>x-goog-upload-url\<close> header (or an empty one), the upload
  fails and the start request is the only effect of the run: no chunk request is sent. The
  error is ``No upload URL received from Gemini API'' when the response is a 2xx, and
  ``Failed to initialize upload'' otherwise, which the code tests first.
\<close>

theorem no_upload_url_no_chunk:
  assumes "start_reply srv (start_request_of f apiKey (contentType_of f)) = Resolved initRes"
    and "x_goog_upload_url initRes = None \<or> x_goog_upload_url initRes = Some []"
  shows "uploadToGemini C srv f apiKey =
           Some ([Start (start_request_of f apiKey (contentType_of f))],
                 Inl (if ok initRes then NoUploadUrl else InitFailed (statusText initRes))) \<and>
         uploadToGemini_part_002 C srv f apiKey =
           Some ([Start (start_request_of f apiKey (contentType_of f))],
                 Inl (if ok initRes then NoUploadUrl else InitFailed (statusText initRes))) \<and>
         chunk_requests [Start (start_request_of f apiKey (contentType_of f))] = []"
  using uploadToGemini_no_url[OF assms] uploadToGemini_part_002_no_url[OF assms] by simp

theorem no_upload_url_no_chunk_witness:
  "uploadToGemini UPLOAD_CHUNK_SIZE
     (demo_server None (by_protocol 20971520) ''PROCESSING'' (Some ''transcript''))
     (demo_file 20971520) ''K'' =
     Some ([Start (start_request_of (demo_file 20971520) ''K'' ''audio/mpeg'')], Inl NoUploadUrl) \<and>
   uploadToGemini_part_002 UPLOAD_CHUNK_SIZE
     (demo_server None (by_protocol 20971520) ''PROCESSING'' (Some ''transcript''))
     (demo_file 20971520) ''K'' =
     Some ([Start (start_request_of (demo_file 20971520) ''K'' ''audio/mpeg'')], Inl NoUploadUrl) \<and>
   message NoUploadUrl = ''No upload URL received from Gemini API''"
  using no_upload_url_no_chunk
    [of "demo_server None (by_protocol 20971520) ''PROCESSING'' (Some ''transcript'')"
        "demo_file 20971520" "''K''" "demo_response 200 None []" UPLOAD_CHUNK_SIZE]
  by (simp add: demo_defs ok_def contentType_of_def or_else_def)



text \<open>
  C9. A run of \<open>transcribeMedia\<close> sends at most one generation request, exactly one when it
  returns a text. When \<open>isComplex\<close> is true, and when it is left undefined (the parameter's
  default is true), the request names \<open>GEMINI_PRO_MODEL\<close> and sets a thinking budget of 32768;
  when \<open>isComplex\<close> is false the request names \<open>GEMINI_FLASH_MODEL\<close> and sets no thinking
  configuration. The two models are different ones.
\<close>

theorem model_follows_complexity_hint:
  "(transcribeMedia C srv env f mimeType isComplex = Some (tr, res) \<longrightarrow>
      one_generation isComplex tr res) \<and>
   (transcribeMedia_part_002 C srv env f mimeType isComplex = Some (tr', res') \<longrightarrow>
      one_generation isComplex tr' res') \<and>
   GEMINI_PRO_MODEL \<noteq> GEMINI_FLASH_MODEL"
proof (intro conjI impI)
  assume run: "transcribeMedia C srv env f mimeType isComplex = Some (tr, res)"
  from transcribeMedia_cases[OF run] show "one_generation isComplex tr res"
  proof (elim disjE exE conjE)
    assume "tr = []" "res = Inl ApiKeyNotFound"
    then show ?thesis by (simp add: one_generation_def)
  next
    fix e assume "uploadToGemini C srv f (the env) = Some (tr, Inl e)" "res = Inl e"
    with uploadToGemini_phase show ?thesis by (metis one_generation_upload_error)
  next
    fix tr0 fileUri
    assume "uploadToGemini C srv f (the env) = Some (tr0, Inr fileUri)"
      and "after_upload srv f mimeType isComplex tr0 fileUri tr res"
    with uploadToGemini_phase show ?thesis by (metis one_generation_after_upload)
  qed
next
  assume run: "transcribeMedia_part_002 C srv env f mimeType isComplex = Some (tr', res')"
  from transcribeMedia_part_002_cases[OF run] show "one_generation isComplex tr' res'"
  proof (elim disjE exE conjE)
    assume "tr' = []" "res' = Inl ApiKeyNotConfigured"
    then show ?thesis by (simp add: one_generation_def)
  next
    fix e assume "uploadToGemini_part_002 C srv f (the env) = Some (tr', Inl e)" "res' = Inl e"
    with uploadToGemini_part_002_phase show ?thesis by (metis one_generation_upload_error)
  next
    fix tr0 fileUri
    assume "uploadToGemini_part_002 C srv f (the env) = Some (tr0, Inr fileUri)"
      and "after_upload srv f mimeType isComplex tr0 fileUri tr' res'"
    with uploadToGemini_part_002_phase show ?thesis by (metis one_generation_after_upload)
  qed
next
  show "GEMINI_PRO_MODEL \<noteq> GEMINI_FLASH_MODEL"
    by (simp add: GEMINI_PRO_MODEL_def GEMINI_FLASH_MODEL_def)
qed

theorem model_follows_complexity_hint_witness:
  "(\<exists>tr. transcribeMedia UPLOAD_CHUNK_SIZE
            (demo_server (Some demo_url) (by_protocol 1) ''ACTIVE'' (Some ''transcript''))
            (Some ''K'') (demo_file 1) [] (Some True) = Some (tr, Inr ''transcript'') \<and>
          one_generation (Some True) tr (Inr ''transcript'') \<and>
          map (\<lambda>g. (model g, thinkingBudget g)) (generate_requests tr) =
            [(''gemini-2.0-flash-thinking-exp-01-21'', Some 32768)]) \<and>
   (\<exists>tr. transcribeMedia UPLOAD_CHUNK_SIZE
            (demo_server (Some demo_url) (by_protocol 1) ''ACTIVE'' (Some ''transcript''))
            (Some ''K'') (demo_file 1) [] None = Some (tr, Inr ''transcript'') \<and>
          one_generation None tr (Inr ''transcript'') \<and>
          map (\<lambda>g. (model g, thinkingBudget g)) (generate_requests tr) =
            [(''gemini-2.0-flash-thinking-exp-01-21'', Some 32768)]) \<and>
   (\<exists>tr. transcribeMedia UPLOAD_CHUNK_SIZE
            (demo_server (Some demo_url) (by_protocol 1) ''ACTIVE'' (Some ''transcript''))
            (Some ''K'') (demo_file 1) [] (Some False) = Some (tr, Inr ''transcript'') \<and>
          one_generation (Some False) tr (Inr ''transcript'') \<and>
          map (\<lambda>g. (model g, thinkingBudget g)) (generate_requests tr) =
            [(''gemini-2.0-flash-exp'', None)]) \<and>
   (\<exists>tr. transcribeMedia_part_002 UPLOAD_CHUNK_SIZE
            (demo_server (Some demo_url) (by_protocol 1) ''ACTIVE'' (Some ''transcript''))
            (Some ''K'') (demo_file 1) [] (Some True) = Some (tr, Inr ''transcript'') \<and>
          one_generation (Some True) tr (Inr ''transcript'') \<and>
          map (\<lambda>g. (model g, thinkingBudget g)) (generate_requests tr) =
            [(''gemini-2.0-flash-thinking-exp-01-21'', Some 32768)]) \<and>
   (\<exists>tr. transcribeMedia_part_002 UPLOAD_CHUNK_SIZE
            (demo_server (Some demo_url) (by_protocol 1) ''ACTIVE'' (Some ''transcript''))
            (Some ''K'') (demo_file 1) [] None = Some (tr, Inr ''transcript'') \<and>
          one_generation None tr (Inr ''transcript'') \<and>
          map (\<lambda>g. (model g, thinkingBudget g)) (generate_requests tr) =
            [(''gemini-2.0-flash-thinking-exp-01-21'', Some 32768)]) \<and>
   (\<exists>tr. transcribeMedia_part_002 UPLOAD_CHUNK_SIZE
            (demo_server (Some demo_url) (by_protocol 1) ''ACTIVE'' (Some ''transcript''))
            (Some ''K'') (demo_file 1) [] (Some False) = Some (tr, Inr ''transcript'') \<and>
          one_generation (Some False) tr (Inr ''transcript'') \<and>
          map (\<lambda>g. (model g, thinkingBudget g)) (generate_requests tr) =
            [(''gemini-2.0-flash-exp'', None)])"
proof -
  let ?srv = "demo_server (Some demo_url) (by_protocol 1) ''ACTIVE'' (Some ''transcript'')"
  let ?deep = "[(''gemini-2.0-flash-thinking-exp-01-21'', Some (32768 :: nat))]"
  let ?fast = "[(''gemini-2.0-flash-exp'', None :: nat option)]"
  have B: "\<exists>tr. transcribeMedia UPLOAD_CHUNK_SIZE ?srv (Some ''K'') (demo_file 1) [] c
               = Some (tr, Inr ''transcript'') \<and>
             one_generation c tr (Inr ''transcript'') \<and>
             map (\<lambda>g. (model g, thinkingBudget g)) (generate_requests tr) =
               (if c = Some False then ?fast else ?deep)" for c
  proof -
    from demo_generation(1)[of c] obtain tr where
      run: "transcribeMedia UPLOAD_CHUNK_SIZE ?srv (Some ''K'') (demo_file 1) [] c
         = Some (tr, Inr ''transcript'')"
      and g: "map (\<lambda>g. (model g, thinkingBudget g)) (generate_requests tr)
         = [if or_true c then (GEMINI_PRO_MODEL, Some 32768) else (GEMINI_FLASH_MODEL, None)]"
      by auto
    from model_follows_complexity_hint
           [of UPLOAD_CHUNK_SIZE ?srv "Some ''K''" "demo_file 1" "[]" c tr "Inr ''transcript''"]
         run
    have "one_generation c tr (Inr ''transcript'')" by blast
    moreover from g have "map (\<lambda>g. (model g, thinkingBudget g)) (generate_requests tr) =
               (if c = Some False then ?fast else ?deep)"
      by (cases c) (auto simp: or_true_def GEMINI_PRO_MODEL_def GEMINI_FLASH_MODEL_def)
    ultimately show ?thesis using run by blast
  qed
  have A: "\<exists>tr. transcribeMedia_part_002 UPLOAD_CHUNK_SIZE ?srv (Some ''K'') (demo_file 1) [] c
               = Some (tr, Inr ''transcript'') \<and>
             one_generation c tr (Inr ''transcript'') \<and>
             map (\<lambda>g. (model g, thinkingBudget g)) (generate_requests tr) =
               (if c = Some False then ?fast else ?deep)" for c
  proof -
    from demo_generation(2)[of c] obtain tr where
      run: "transcribeMedia_part_002 UPLOAD_CHUNK_SIZE ?srv (Some ''K'') (demo_file 1) [] c
         = Some (tr, Inr ''transcript'')"
      and g: "map (\<lambda>g. (model g, thinkingBudget g)) (generate_requests tr)
         = [if or_true c then (GEMINI_PRO_MODEL, Some 32768) else (GEMINI_FLASH_MODEL, None)]"
      by auto
    from model_follows_complexity_hint
           [of UPLOAD_CHUNK_SIZE ?srv "Some ''K''" "demo_file 1" "[]" c _ _ tr "Inr ''transcript''"]
         run
    have "one_generation c tr (Inr ''transcript'')" by blast
    moreover from g have "map (\<lambda>g. (model g, thinkingBudget g)) (generate_requests tr) =
               (if c = Some False then ?fast else ?deep)"
      by (cases c) (auto simp: or_true_def GEMINI_PRO_MODEL_def GEMINI_FLASH_MODEL_def)
    ultimately show ?thesis using run by blast
  qed
  from B[of "Some True"] B[of None] B[of "Some False"]
       A[of "Some True"] A[of None] A[of "Some False"]
  show ?thesis by simp
qed

text \<open>
  C10. For a file of size 0 \<open>uploadToGemini\<close> never returns a file URI. The start request is
  sent and is the only effect: the loop body is not entered and no chunk request is sent. When
  the session has started, the error is ``Upload loop finished without returning URI''.
\<close>

theorem empty_file_never_uploaded:
  assumes "file_size f = 0"
  shows "(\<exists>e. uploadToGemini C srv f apiKey =
                Some ([Start (start_request_of f apiKey (contentType_of f))], Inl e) \<and>
              uploadToGemini_part_002 C srv f apiKey =
                Some ([Start (start_request_of f apiKey (contentType_of f))], Inl e) \<and>
              (session_started srv f apiKey \<longrightarrow> e = LoopFinished)) \<and>
         chunk_requests [Start (start_request_of f apiKey (contentType_of f))] = [] \<and>
         message LoopFinished = ''Upload loop finished without returning URI''"
proof (cases "start_reply srv (start_request_of f apiKey (contentType_of f))")
  case Rejected
  then show ?thesis
    by (simp add: uploadToGemini_def uploadToGemini_part_002_def session_started_def Let_def)
next
  case (Resolved initRes)
  show ?thesis
  proof (cases "\<not> ok initRes \<or> falsy (x_goog_upload_url initRes)")
    case True
    with Resolved show ?thesis
      by (auto simp: uploadToGemini_def uploadToGemini_part_002_def session_started_def Let_def)
  next
    case False
    with Resolved assms show ?thesis
      by (simp add: uploadToGemini_def uploadToGemini_part_002_def Let_def
            upload_loop_exit upload_loop_part_002_exit)
  qed
qed

theorem empty_file_never_uploaded_witness:
  "uploadToGemini UPLOAD_CHUNK_SIZE
     (demo_server (Some demo_url) (by_protocol 0) ''PROCESSING'' (Some ''transcript''))
     (demo_file 0) ''K'' =
     Some ([Start (start_request_of (demo_file 0) ''K'' ''audio/mpeg'')], Inl LoopFinished) \<and>
   uploadToGemini_part_002 UPLOAD_CHUNK_SIZE
     (demo_server (Some demo_url) (by_protocol 0) ''PROCESSING'' (Some ''transcript''))
     (demo_file 0) ''K'' =
     Some ([Start (start_request_of (demo_file 0) ''K'' ''audio/mpeg'')], Inl LoopFinished)"
  using empty_file_never_uploaded
    [of "demo_file 0" UPLOAD_CHUNK_SIZE
        "demo_server (Some demo_url) (by_protocol 0) ''PROCESSING'' (Some ''transcript'')" "''K''"]
  by (auto simp: demo_defs ok_def contentType_of_def or_else_def session_started_def falsy_def)

end
